theory Spec2Isabelle
  imports Complex_Main
begin

section \<open>The lognormal poverty model of \<^verbatim>\<open>count_poverty.ipynb\<close>\<close>

text \<open>
  The notebook defines one class, \<^verbatim>\<open>HackParams\<close>, with the methods
  \<^verbatim>\<open>find_upper_limit\<close>, \<^verbatim>\<open>find_params\<close>, \<^verbatim>\<open>count_poverty\<close> and the static
  methods \<^verbatim>\<open>equation\<close> and \<^verbatim>\<open>integrand\<close>.

  Modelling conventions.
  \<^item> A Python float is a real number: rounding, overflow and underflow of IEEE doubles
    are outside the model. The special values that NumPy produces on a division by
    zero are kept (type \<open>npfloat\<close>), because the source can reach them.
  \<^item> An exception is a value of \<open>py_error\<close>; a method that can raise returns
    \<open>py_error + 'a\<close>.
  \<^item> The SciPy routines \<^verbatim>\<open>fsolve\<close> and \<^verbatim>\<open>quad\<close> are not code of the notebook.
    They are the two fields of a record \<open>scipy\<close> that every method receives; what
    a theorem needs of them is a hypothesis of the theorem, about the call the method
    makes: a bound on the residual of the value that \<^verbatim>\<open>fsolve\<close> returned, a bound on
    the distance of the estimate that \<^verbatim>\<open>quad\<close> returned from the integral of the
    integrand.
  \<^item> \<^verbatim>\<open>norm.cdf\<close> is the standard normal distribution function, given by its
    power series.
\<close>

subsection \<open>Python and NumPy primitives\<close>

datatype py_error = ValueError | ZeroDivisionError

text \<open>\<^verbatim>\<open>math.log(x)\<close> raises \<^verbatim>\<open>ValueError: math domain error\<close> unless \<open>x > 0\<close>.\<close>

definition math_log :: "real \<Rightarrow> py_error + real" where
  "math_log x = (if x \<le> 0 then Inl ValueError else Inr (ln x))"

text \<open>\<^verbatim>\<open>math.sqrt(x)\<close> raises \<^verbatim>\<open>ValueError: math domain error\<close> when \<open>x < 0\<close>.\<close>

definition math_sqrt :: "real \<Rightarrow> py_error + real" where
  "math_sqrt x = (if x < 0 then Inl ValueError else Inr (sqrt x))"

text \<open>\<^verbatim>\<open>a / b\<close> on Python numbers raises \<^verbatim>\<open>ZeroDivisionError\<close> when \<open>b = 0\<close>.\<close>

definition py_truediv :: "real \<Rightarrow> real \<Rightarrow> py_error + real" where
  "py_truediv a b = (if b = 0 then Inl ZeroDivisionError else Inr (a / b))"

text \<open>
  A \<^verbatim>\<open>numpy.float64\<close> that may be infinite or not a number. Dividing two
  \<^verbatim>\<open>numpy.float64\<close> scalars never raises: a zero divisor gives an infinity or NaN
  (and a \<^verbatim>\<open>RuntimeWarning\<close>).
\<close>

datatype npfloat = Finite real | PosInf | NegInf | NaN

definition np_divide :: "real \<Rightarrow> real \<Rightarrow> npfloat" where
  "np_divide a b =
     (if b \<noteq> 0 then Finite (a / b)
      else if 0 < a then PosInf
      else if a < 0 then NegInf
      else NaN)"

text \<open>
  Python's \<^verbatim>\<open>round(x, n)\<close> on a float: the nearest multiple of \<open>10\<^sup>-\<^sup>n\<close>, a tie going to
  the even multiple.
\<close>

definition round_half_even :: "real \<Rightarrow> int" where
  "round_half_even x =
     (let f = \<lfloor>x\<rfloor>; d = x - of_int f
      in if d < 1 / 2 then f
         else if 1 / 2 < d then f + 1
         else if even f then f else f + 1)"

definition py_round :: "real \<Rightarrow> nat \<Rightarrow> real" where
  "py_round x n = of_int (round_half_even (x * 10 ^ n)) / 10 ^ n"

text \<open>Sequencing of calls that may raise: the first exception ends the evaluation.\<close>

definition bind_err :: "py_error + 'a \<Rightarrow> ('a \<Rightarrow> py_error + 'b) \<Rightarrow> py_error + 'b" where
  "bind_err r f = (case r of Inl e \<Rightarrow> Inl e | Inr v \<Rightarrow> f v)"

subsection \<open>The SciPy routines\<close>

text \<open>
  \<^verbatim>\<open>fsolve(func, x0, args)\<close> returns the solution, or the last iterate when it did not
  converge; the flag \<open>ier\<close> of MINPACK (1 for success) only decides whether SciPy
  prints a warning, and the caller of \<^verbatim>\<open>fsolve\<close> without \<^verbatim>\<open>full_output\<close> never sees
  it.

  \<^verbatim>\<open>quad(func, a, b)\<close> returns the estimate of the integral and of its absolute
  error; a flag \<open>ier\<close> of QUADPACK other than 0 (subdivision limit reached, round-off,
  no convergence, divergence) is again reported as a warning only.
\<close>

record fsolve_out =
  fs_x :: real
  fs_ier :: int

record quad_out =
  q_integral :: real
  q_abserr :: real
  q_ier :: int

record scipy =
  fsolve :: "(real \<Rightarrow> real \<Rightarrow> real) \<Rightarrow> real \<Rightarrow> real \<Rightarrow> fsolve_out"
  quad :: "(real \<Rightarrow> real) \<Rightarrow> npfloat \<Rightarrow> npfloat \<Rightarrow> quad_out"

text \<open>
  \<^verbatim>\<open>norm.cdf\<close>: \<open>\<Phi>(x) = 1/2 + (1/\<surd>(2\<pi>)) \<Sum>\<^sub>n (-1)\<^sup>n x\<^sup>2\<^sup>n\<^sup>+\<^sup>1 / (2\<^sup>n n! (2n+1))\<close>. The sum is
  the integral of \<open>exp (- t\<^sup>2 / 2)\<close> from 0 to \<open>x\<close>, integrated term by term.
\<close>

definition gauss_coeff :: "nat \<Rightarrow> real" where
  "gauss_coeff n = (- 1) ^ n / (2 ^ n * fact n * real (2 * n + 1))"

definition gauss_area :: "real \<Rightarrow> real" where
  "gauss_area x = (\<Sum>n. gauss_coeff n * x ^ (2 * n + 1))"

definition norm_cdf :: "real \<Rightarrow> real" where
  "norm_cdf x = 1 / 2 + (1 / sqrt (2 * pi)) * gauss_area x"

subsection \<open>The class \<^verbatim>\<open>HackParams\<close>\<close>

record HackParams =
  average_income :: real
  poverty_line :: real
  poverty :: real

text \<open>\<^verbatim>\<open>__init__\<close>: stores the three numbers, the poverty rate divided by 100.\<close>

definition HackParams_init :: "real \<Rightarrow> real \<Rightarrow> real \<Rightarrow> HackParams" where
  "HackParams_init avg line pov =
     \<lparr>average_income = avg, poverty_line = line, poverty = pov / 100\<rparr>"

text \<open>\<^verbatim>\<open>equation(x, value)\<close>: \<^verbatim>\<open>norm.cdf(x) - value\<close>.\<close>

definition equation :: "real \<Rightarrow> real \<Rightarrow> real" where
  "equation x v = norm_cdf x - v"

text \<open>\<^verbatim>\<open>integrand(x)\<close>: \<^verbatim>\<open>np.exp((-x ** 2) / 2)\<close>; the power binds before the sign.\<close>

definition integrand :: "real \<Rightarrow> real" where
  "integrand x = exp ((- (x ^ 2)) / 2)"

text \<open>
  \<^verbatim>\<open>find_upper_limit\<close>: \<^verbatim>\<open>upper_limit, = fsolve(self.equation, 0, self.poverty)\<close>. The
  third positional argument of \<^verbatim>\<open>fsolve\<close> is \<^verbatim>\<open>args\<close>. Nothing here can raise.
\<close>

definition find_upper_limit :: "scipy \<Rightarrow> HackParams \<Rightarrow> py_error + real" where
  "find_upper_limit sp hp = Inr (fs_x (fsolve sp equation 0 (poverty hp)))"

text \<open>
  \<^verbatim>\<open>find_params\<close>, in Python's evaluation order: the quotient, its logarithm, the
  square root, then the logarithm of the average income.
\<close>

definition find_params :: "scipy \<Rightarrow> HackParams \<Rightarrow> py_error + (real \<times> real)" where
  "find_params sp hp =
     bind_err (find_upper_limit sp hp) (\<lambda>u_limit.
     bind_err (py_truediv (average_income hp) (poverty_line hp)) (\<lambda>ratio.
     bind_err (math_log ratio) (\<lambda>lg.
     bind_err (math_sqrt (u_limit ^ 2 + 2 * lg)) (\<lambda>root.
     let stdev = u_limit + root in
     bind_err (math_log (average_income hp)) (\<lambda>la.
     let mu = la - 0.5 * stdev ^ 2 in
     Inr (mu, stdev))))))"

text \<open>
  \<^verbatim>\<open>count_poverty\<close>. \<open>sigma\<close> is a \<^verbatim>\<open>numpy.float64\<close> (it descends from the array that
  \<^verbatim>\<open>fsolve\<close> returns), so the division that gives \<open>u\<close> is NumPy's.
\<close>

definition count_poverty :: "scipy \<Rightarrow> HackParams \<Rightarrow> real \<Rightarrow> py_error + real" where
  "count_poverty sp hp new_line =
     bind_err (find_params sp hp) (\<lambda>(mu, sigma).
     bind_err (math_log (average_income hp)) (\<lambda>la.
     let ln_x0 = la - 0.5 * sigma ^ 2 in
     bind_err (math_log new_line) (\<lambda>ln_new.
     let u = np_divide (ln_new - ln_x0) sigma;
         q = quad sp integrand NegInf u;
         integral = q_integral q;
         result = py_round ((1 / sqrt (2 * pi)) * integral) 4
     in Inr (result * 100))))"

subsection \<open>Quantities the statements below talk about\<close>

text \<open>The power series of \<open>\<Phi>\<close> in the variable \<open>y = x\<^sup>2\<close>.\<close>

definition gauss_series :: "real \<Rightarrow> real" where
  "gauss_series y = (\<Sum>n. gauss_coeff n * y ^ n)"

text \<open>Partial sums of the series of \<open>\<Phi>\<close> and of the exponential series.\<close>

definition gauss_partial :: "real \<Rightarrow> nat \<Rightarrow> real" where
  "gauss_partial x n = (\<Sum>i<n. gauss_coeff i * x ^ (2 * i + 1))"

definition exp_partial :: "real \<Rightarrow> nat \<Rightarrow> real" where
  "exp_partial x n = (\<Sum>m<n. x ^ m / fact m)"

text \<open>
  The value \<open>z\<close> that \<^verbatim>\<open>fsolve\<close> hands to \<^verbatim>\<open>find_params\<close>, the term under the square
  root, and the two closed-form expressions of the fit.
\<close>

definition solved_z :: "scipy \<Rightarrow> HackParams \<Rightarrow> real" where
  "solved_z sp hp = fs_x (fsolve sp equation 0 (poverty hp))"

definition radicand :: "scipy \<Rightarrow> HackParams \<Rightarrow> real" where
  "radicand sp hp = solved_z sp hp ^ 2 + 2 * ln (average_income hp / poverty_line hp)"

definition closed_form_scale :: "scipy \<Rightarrow> HackParams \<Rightarrow> real" where
  "closed_form_scale sp hp = solved_z sp hp + sqrt (radicand sp hp)"

definition closed_form_location :: "scipy \<Rightarrow> HackParams \<Rightarrow> real" where
  "closed_form_location sp hp = ln (average_income hp) - 0.5 * closed_form_scale sp hp ^ 2"

text \<open>
  The fraction \<^verbatim>\<open>count_poverty\<close> computes from the quadrature started at \<open>-\<infinity>\<close> and
  stopped at \<open>u\<close>, before it is rounded.
\<close>

definition computed_fraction :: "scipy \<Rightarrow> npfloat \<Rightarrow> real" where
  "computed_fraction sp u = (1 / sqrt (2 * pi)) * q_integral (quad sp integrand NegInf u)"

text \<open>
  The evaluator as the specification words it: the threshold is standardised with the
  location \<open>mu\<close> that \<^verbatim>\<open>find_params\<close> returned, \<open>u = (ln new_line - mu) / sigma\<close>.
\<close>

definition count_poverty_with_mu :: "scipy \<Rightarrow> HackParams \<Rightarrow> real \<Rightarrow> py_error + real" where
  "count_poverty_with_mu sp hp new_line =
     bind_err (find_params sp hp) (\<lambda>(mu, sigma).
     bind_err (math_log new_line) (\<lambda>ln_new.
     let u = np_divide (ln_new - mu) sigma
     in Inr (py_round (computed_fraction sp u) 4 * 100)))"

subsection \<open>The integral that the quadrature estimates\<close>

text \<open>
  \<open>improper_integral f u I\<close>: \<open>I\<close> is the integral of \<open>f\<close> from \<open>-\<infinity>\<close> to \<open>u\<close>, the value
  at \<open>u\<close> of an antiderivative of \<open>f\<close> that tends to 0 at \<open>-\<infinity>\<close>. There is at most one
  such value.
  \<open>quad_within sp f u eps\<close>: the estimate that \<^verbatim>\<open>quad(f, -np.inf, u)\<close> returned lies
  within \<open>eps\<close> of the integral of \<open>f\<close> from \<open>-\<infinity>\<close> to \<open>u\<close>. That the integral exists
  is not part of the predicate: for the integrand of the notebook it is proved below.
\<close>

definition improper_integral :: "(real \<Rightarrow> real) \<Rightarrow> real \<Rightarrow> real \<Rightarrow> bool" where
  "improper_integral f u I \<longleftrightarrow>
     (\<exists>F. (\<forall>x. (F has_real_derivative f x) (at x)) \<and> (F \<longlongrightarrow> 0) at_bot \<and> F u = I)"

definition quad_within :: "scipy \<Rightarrow> (real \<Rightarrow> real) \<Rightarrow> real \<Rightarrow> real \<Rightarrow> bool" where
  "quad_within sp f u eps \<longleftrightarrow>
     (\<forall>I. improper_integral f u I \<longrightarrow> \<bar>q_integral (quad sp f NegInf (Finite u)) - I\<bar> \<le> eps)"

text \<open>
  Antiderivatives in closed form, from which the integral of the integrand over the
  whole line is computed: \<open>cos_int k\<close> of \<open>cos\<^sup>k\<close> and \<open>poly_int n\<close> of \<open>(1 - x\<^sup>2)\<^sup>n\<close>, both
  0 at 0; \<open>wallis k\<close> is the integral of \<open>cos\<^sup>k\<close> from 0 to \<open>\<pi>/2\<close>.
\<close>

fun cos_int :: "nat \<Rightarrow> real \<Rightarrow> real" where
  "cos_int 0 t = t"
| "cos_int (Suc 0) t = sin t"
| "cos_int (Suc (Suc k)) t =
     (cos t ^ Suc k * sin t + real (Suc k) * cos_int k t) / real (Suc (Suc k))"

definition wallis :: "nat \<Rightarrow> real" where
  "wallis k = cos_int k (pi / 2)"

fun poly_int :: "nat \<Rightarrow> real \<Rightarrow> real" where
  "poly_int 0 x = x"
| "poly_int (Suc n) x =
     (x * (1 - x ^ 2) ^ Suc n + 2 * real (Suc n) * poly_int n x) / real (2 * n + 3)"

subsection \<open>Library results of a run\<close>

text \<open>
  The theorems hold for every \<open>scipy\<close>. To evaluate the model at a concrete input, the
  results of the library calls of that run are fixed: \<open>scipy_returning fo qo\<close> is the
  library in a run where \<^verbatim>\<open>fsolve\<close> returned \<open>fo\<close> and \<^verbatim>\<open>quad\<close>, asked for the upper
  limit \<open>b\<close>, returned \<open>qo b\<close>. \<open>gauss_quad\<close> is the quadrature without error:
  \<open>\<surd>(2\<pi>) \<Phi>(u)\<close> is the integral of the integrand up to \<open>u\<close> (lemma
  \<open>improper_integral_gauss\<close>). \<open>exact_run z\<close> is a run in which \<^verbatim>\<open>fsolve\<close> converged
  to \<open>z\<close> and the quadrature made no error.
\<close>

definition gauss_quad :: "npfloat \<Rightarrow> quad_out" where
  "gauss_quad b =
     (case b of
        Finite u \<Rightarrow> \<lparr>q_integral = sqrt (2 * pi) * norm_cdf u, q_abserr = 0, q_ier = 0\<rparr>
      | PosInf \<Rightarrow> \<lparr>q_integral = sqrt (2 * pi), q_abserr = 0, q_ier = 0\<rparr>
      | NegInf \<Rightarrow> \<lparr>q_integral = 0, q_abserr = 0, q_ier = 0\<rparr>
      | NaN \<Rightarrow> \<lparr>q_integral = 0, q_abserr = 0, q_ier = 6\<rparr>)"

definition scipy_returning :: "fsolve_out \<Rightarrow> (npfloat \<Rightarrow> quad_out) \<Rightarrow> scipy" where
  "scipy_returning fo qo = \<lparr>fsolve = (\<lambda>f x0 args. fo), quad = (\<lambda>f a b. qo b)\<rparr>"

definition exact_run :: "real \<Rightarrow> scipy" where
  "exact_run z = scipy_returning \<lparr>fs_x = z, fs_ier = 1\<rparr> gauss_quad"

text \<open>
  \<open>stalled_run\<close>: a run in which \<^verbatim>\<open>fsolve\<close> stopped at the iterate 8 and reported
  \<open>ier = 5\<close> (no good progress), as it does when the residual has no root.
\<close>

definition stalled_run :: scipy where
  "stalled_run = scipy_returning \<lparr>fs_x = 8, fs_ier = 5\<rparr> gauss_quad"

text \<open>
  \<open>collapsed_run\<close>: a run in which \<^verbatim>\<open>fsolve\<close> returned its starting estimate 0 and
  \<^verbatim>\<open>quad\<close>, asked for an upper limit between 77 and 194, returned the estimate 0 with
  the error estimate 0 and \<open>ier = 0\<close>. This is what QUADPACK returns in double
  precision: for such a limit \<open>u\<close> the 15 points at which its first rule evaluates the
  integrand are \<open>u - 233.06\<close>, \<open>u - 38.30\<close>, \<open>u - 13.80\<close> and points nearer to
  \<open>u\<close>, all more than 38.7 away from 0, where \<^verbatim>\<open>np.exp(-x**2/2)\<close> is \<open>0.0\<close>; the
  rule sums to 0, its error estimate is 0, and the routine stops at once, reporting
  success. At the other limits the run has the quadrature without error; it is used
  at the limit 0 only, where \<^verbatim>\<open>quad\<close> is accurate far beyond the fourth decimal.
\<close>

definition collapsed_quad :: "npfloat \<Rightarrow> quad_out" where
  "collapsed_quad b =
     (case b of
        Finite u \<Rightarrow>
          if 77 < u \<and> u < 194 then \<lparr>q_integral = 0, q_abserr = 0, q_ier = 0\<rparr>
          else gauss_quad b
      | _ \<Rightarrow> gauss_quad b)"

definition collapsed_run :: scipy where
  "collapsed_run = scipy_returning \<lparr>fs_x = 0, fs_ier = 1\<rparr> collapsed_quad"

text \<open>
  \<open>reversed_params\<close>: an average income of 2 below a poverty line of 3, with the
  poverty rate \<open>100 \<Phi>(-1)\<close> (about 15.87 per cent), for which \<^verbatim>\<open>fsolve\<close> returns
  \<open>-1\<close>.
\<close>

definition reversed_params :: HackParams where
  "reversed_params = HackParams_init 2 3 (100 * norm_cdf (- 1))"

section \<open>The standard normal distribution function\<close>

text \<open>The series converges everywhere; by comparison with the exponential series.\<close>

lemma gauss_coeff_abs: "\<bar>gauss_coeff n\<bar> = 1 / (2 ^ n * fact n * real (2 * n + 1))"
  unfolding gauss_coeff_def by (simp add: abs_divide power_abs)

lemma gauss_coeff_abs_le: "\<bar>gauss_coeff n\<bar> \<le> (1 / 2) ^ n / fact n"
proof -
  have pos: "(0::real) < 2 ^ n * fact n" by simp
  have "(2::real) ^ n * fact n * 1 \<le> 2 ^ n * fact n * real (2 * n + 1)"
    using pos by (intro mult_left_mono) simp_all
  then have "1 / (2 ^ n * fact n * real (2 * n + 1)) \<le> 1 / (2 ^ n * fact n * (1::real))"
    using pos by (intro divide_left_mono) simp_all
  then show ?thesis
    by (simp add: gauss_coeff_abs power_divide)
qed

lemma gauss_coeff_summable: "summable (\<lambda>n. gauss_coeff n * y ^ n)"
proof (rule summable_comparison_test')
  show "summable (\<lambda>n. (\<bar>y\<bar> / 2) ^ n /\<^sub>R fact n)"
    by (rule summable_exp_generic)
  fix n :: nat
  have "norm (gauss_coeff n * y ^ n) = \<bar>gauss_coeff n\<bar> * \<bar>y\<bar> ^ n"
    by (simp add: abs_mult power_abs)
  also have "\<dots> \<le> ((1 / 2) ^ n / fact n) * \<bar>y\<bar> ^ n"
    by (intro mult_right_mono gauss_coeff_abs_le) simp
  also have "\<dots> = (\<bar>y\<bar> / 2) ^ n /\<^sub>R fact n"
    by (simp add: power_divide field_simps)
  finally show "norm (gauss_coeff n * y ^ n) \<le> (\<bar>y\<bar> / 2) ^ n /\<^sub>R fact n" .
qed

lemma gauss_area_series: "gauss_area x = x * gauss_series (x ^ 2)"
proof -
  have eq: "gauss_coeff n * x ^ (2 * n + 1) = x * (gauss_coeff n * (x ^ 2) ^ n)" for n
    by (simp add: power_mult)
  have "gauss_area x = (\<Sum>n. x * (gauss_coeff n * (x ^ 2) ^ n))"
    unfolding gauss_area_def by (simp only: eq)
  also have "\<dots> = x * (\<Sum>n. gauss_coeff n * (x ^ 2) ^ n)"
    by (rule suminf_mult) (rule gauss_coeff_summable)
  finally show ?thesis by (simp add: gauss_series_def)
qed

lemma gauss_series_deriv:
  "(gauss_series has_real_derivative (\<Sum>n. diffs gauss_coeff n * y ^ n)) (at y)"
  unfolding gauss_series_def
  by (rule termdiffs_strong [where K = "\<bar>y\<bar> + 1"]) (simp_all add: gauss_coeff_summable)

lemma diffs_gauss_summable: "summable (\<lambda>n. diffs gauss_coeff n * y ^ n)"
  by (rule termdiff_converges_all) (rule gauss_coeff_summable)

lemma gauss_series_ode:
  "gauss_series y + 2 * y * (\<Sum>n. diffs gauss_coeff n * y ^ n) = exp (- y / 2)"
proof -
  let ?d = "\<Sum>n. diffs gauss_coeff n * y ^ n"
  have s1: "(\<lambda>n. gauss_coeff n * y ^ n) sums gauss_series y"
    unfolding gauss_series_def by (rule summable_sums) (rule gauss_coeff_summable)
  have s2: "(\<lambda>n. of_nat n * gauss_coeff n * y ^ (n - Suc 0)) sums ?d"
    by (rule diffs_equiv) (rule diffs_gauss_summable)
  have s3: "(\<lambda>n. 2 * y * (of_nat n * gauss_coeff n * y ^ (n - Suc 0))) sums (2 * y * ?d)"
    by (rule sums_mult) (rule s2)
  have s4: "(\<lambda>n. gauss_coeff n * y ^ n + 2 * y * (of_nat n * gauss_coeff n * y ^ (n - Suc 0)))
              sums (gauss_series y + 2 * y * ?d)"
    by (rule sums_add) (rule s1, rule s3)
  have tm: "gauss_coeff n * y ^ n + 2 * y * (of_nat n * gauss_coeff n * y ^ (n - Suc 0))
              = (- y / 2) ^ n /\<^sub>R fact n" for n
  proof -
    have "gauss_coeff n * y ^ n + 2 * y * (of_nat n * gauss_coeff n * y ^ (n - Suc 0))
               = (real (2 * n + 1) * gauss_coeff n) * y ^ n"
      by (cases n) (simp_all add: algebra_simps)
    also have "real (2 * n + 1) * gauss_coeff n = (- 1) ^ n / (2 ^ n * fact n)"
      unfolding gauss_coeff_def by simp
    also have "(- 1) ^ n / (2 ^ n * fact n) * y ^ n = (- y / 2) ^ n /\<^sub>R fact n"
    proof -
      have "(- y / 2) ^ n = (- 1) ^ n * y ^ n / 2 ^ n"
        by (simp add: power_minus [of "y / 2"] power_divide)
      then show ?thesis by (simp add: field_simps)
    qed
    finally show ?thesis .
  qed
  have "(\<lambda>n. (- y / 2) ^ n /\<^sub>R fact n) sums (gauss_series y + 2 * y * ?d)"
    using s4 by (simp only: tm)
  moreover have "(\<lambda>n. (- y / 2) ^ n /\<^sub>R fact n) sums exp (- y / 2)"
    by (rule exp_converges)
  ultimately show ?thesis by (rule sums_unique2)
qed

lemma gauss_area_deriv: "(gauss_area has_real_derivative integrand x) (at x)"
proof -
  let ?d = "\<Sum>n. diffs gauss_coeff n * (x ^ 2) ^ n"
  have "((\<lambda>x. x * gauss_series (x ^ 2)) has_real_derivative
           (1 * gauss_series (x ^ 2) + (?d * (2 * x)) * x)) (at x)"
    by (rule DERIV_mult DERIV_ident DERIV_chain2 [OF gauss_series_deriv]
          derivative_eq_intros refl | simp)+
  moreover have "1 * gauss_series (x ^ 2) + (?d * (2 * x)) * x = integrand x"
    using gauss_series_ode [of "x ^ 2"] by (simp add: integrand_def power2_eq_square algebra_simps)
  moreover have "gauss_area = (\<lambda>x. x * gauss_series (x ^ 2))"
    by (rule ext) (rule gauss_area_series)
  ultimately show ?thesis by simp
qed

lemma norm_cdf_deriv:
  "(norm_cdf has_real_derivative integrand x / sqrt (2 * pi)) (at x)"
  unfolding norm_cdf_def [abs_def]
  by (rule derivative_eq_intros gauss_area_deriv refl | simp)+

lemma integrand_pos: "0 < integrand x"
  by (simp add: integrand_def)

lemma norm_cdf_strict_mono:
  assumes "x < y"
  shows "norm_cdf x < norm_cdf y"
  using assms
proof (rule DERIV_pos_imp_increasing)
  fix t
  show "\<exists>d. (norm_cdf has_real_derivative d) (at t) \<and> 0 < d"
    using norm_cdf_deriv [of t] integrand_pos [of t] by (intro exI [of _ "integrand t / sqrt (2 * pi)"]) simp
qed

lemma norm_cdf_mono: "x \<le> y \<Longrightarrow> norm_cdf x \<le> norm_cdf y"
  using norm_cdf_strict_mono [of x y] by (cases "x = y") auto

lemma gauss_area_0: "gauss_area 0 = 0"
  by (simp add: gauss_area_def)

lemma norm_cdf_0: "norm_cdf 0 = 1 / 2"
  by (simp add: norm_cdf_def gauss_area_0)

section \<open>The fit and the evaluator, case by case\<close>

lemma find_params_cases:
  "find_params sp hp =
     (if poverty_line hp = 0 then Inl ZeroDivisionError
      else if average_income hp / poverty_line hp \<le> 0 then Inl ValueError
      else if radicand sp hp < 0 then Inl ValueError
      else if average_income hp \<le> 0 then Inl ValueError
      else Inr (closed_form_location sp hp, closed_form_scale sp hp))"
  by (simp add: find_params_def find_upper_limit_def bind_err_def py_truediv_def math_log_def
      math_sqrt_def radicand_def solved_z_def closed_form_scale_def closed_form_location_def Let_def)

lemma find_params_Inr:
  assumes "find_params sp hp = Inr (mu, sigma)"
  shows "0 < average_income hp" "0 < poverty_line hp" "0 \<le> radicand sp hp"
    "mu = closed_form_location sp hp" "sigma = closed_form_scale sp hp"
proof -
  note c = assms [unfolded find_params_cases]
  show a: "0 < average_income hp" using c by (auto split: if_splits)
  have "poverty_line hp \<noteq> 0" "\<not> average_income hp / poverty_line hp \<le> 0"
    using c by (auto split: if_splits)
  then show "0 < poverty_line hp" using a by (simp add: zero_less_divide_iff not_le)
  show "0 \<le> radicand sp hp" using c by (auto split: if_splits)
  show "mu = closed_form_location sp hp" using c by (auto split: if_splits)
  show "sigma = closed_form_scale sp hp" using c by (auto split: if_splits)
qed

lemma find_params_ok:
  assumes "0 < average_income hp" "0 < poverty_line hp" "0 \<le> radicand sp hp"
  shows "find_params sp hp = Inr (closed_form_location sp hp, closed_form_scale sp hp)"
  using assms by (simp add: find_params_cases not_le zero_less_divide_iff)

lemma count_poverty_eq:
  assumes "find_params sp hp = Inr (mu, sigma)"
  shows "count_poverty sp hp new_line =
     (if new_line \<le> 0 then Inl ValueError
      else Inr (py_round (computed_fraction sp (np_divide (ln new_line - mu) sigma)) 4 * 100))"
proof -
  have a: "0 < average_income hp" and m: "mu = closed_form_location sp hp"
    and s: "sigma = closed_form_scale sp hp"
    using find_params_Inr [OF assms] by auto
  show ?thesis
    using a by (simp add: count_poverty_def assms bind_err_def math_log_def Let_def
        computed_fraction_def m s closed_form_location_def)
qed

lemma count_poverty_refines: "count_poverty sp hp new_line = count_poverty_with_mu sp hp new_line"
proof (cases "find_params sp hp")
  case (Inl e)
  then show ?thesis by (simp add: count_poverty_def count_poverty_with_mu_def bind_err_def)
next
  case (Inr r)
  obtain mu sigma where r: "r = (mu, sigma)" by (cases r)
  have fp: "find_params sp hp = Inr (mu, sigma)" using Inr r by simp
  show ?thesis
    by (simp add: count_poverty_eq [OF fp] count_poverty_with_mu_def fp bind_err_def math_log_def)
qed

section \<open>Rounding\<close>

lemma round_half_even_cases:
  "round_half_even x = \<lfloor>x\<rfloor> \<and> x - of_int \<lfloor>x\<rfloor> \<le> 1 / 2
   \<or> round_half_even x = \<lfloor>x\<rfloor> + 1 \<and> 1 / 2 \<le> x - of_int \<lfloor>x\<rfloor>"
  by (auto simp: round_half_even_def Let_def)

lemma round_half_even_close: "\<bar>of_int (round_half_even x) - x\<bar> \<le> 1 / 2"
proof -
  have "of_int \<lfloor>x\<rfloor> \<le> x" "x < of_int \<lfloor>x\<rfloor> + 1" by linarith+
  then show ?thesis
    using round_half_even_cases [of x] by auto
qed

lemma round_half_even_of_int: "round_half_even (of_int k) = k"
  by (simp add: round_half_even_def)


lemma py_round_close: "\<bar>py_round x n - x\<bar> \<le> 1 / (2 * 10 ^ n)"
proof -
  have p: "(0::real) < 10 ^ n" by simp
  have "\<bar>of_int (round_half_even (x * 10 ^ n)) - x * 10 ^ n\<bar> \<le> 1 / 2"
    by (rule round_half_even_close)
  then have "\<bar>of_int (round_half_even (x * 10 ^ n)) - x * 10 ^ n\<bar> / 10 ^ n \<le> (1 / 2) / 10 ^ n"
    using p by (intro divide_right_mono) simp_all
  moreover have "\<bar>of_int (round_half_even (x * 10 ^ n)) - x * 10 ^ n\<bar> / 10 ^ n = \<bar>py_round x n - x\<bar>"
  proof -
    have "py_round x n - x = (of_int (round_half_even (x * 10 ^ n)) - x * 10 ^ n) / 10 ^ n"
      by (simp add: py_round_def diff_divide_distrib)
    then show ?thesis by (simp add: abs_divide)
  qed
  ultimately show ?thesis by simp
qed


lemma py_round_of_int: "py_round (of_int k) n = of_int k"
proof -
  have "of_int k * (10::real) ^ n = of_int (k * 10 ^ n)" by simp
  then have "round_half_even (of_int k * 10 ^ n) = k * 10 ^ n"
    by (simp only: round_half_even_of_int)
  then show ?thesis by (simp add: py_round_def)
qed




section \<open>Algebra of the closed form\<close>

lemma standardised_line:
  assumes a: "0 < average_income hp" and l: "0 < poverty_line hp"
    and r: "0 \<le> radicand sp hp" and s: "closed_form_scale sp hp \<noteq> 0"
  shows "(ln (poverty_line hp) - closed_form_location sp hp) / closed_form_scale sp hp
         = solved_z sp hp"
proof -
  let ?z = "solved_z sp hp" and ?s = "closed_form_scale sp hp"
  let ?L = "ln (average_income hp / poverty_line hp)"
  have L: "?L = ln (average_income hp) - ln (poverty_line hp)"
    using a l by (simp add: ln_div)
  have "(?s - ?z) ^ 2 = radicand sp hp"
    using r by (simp add: closed_form_scale_def)
  then have "?s ^ 2 - 2 * ?s * ?z = 2 * ?L"
    by (simp add: radicand_def power2_diff algebra_simps)
  then have "ln (poverty_line hp) - closed_form_location sp hp = ?s * ?z"
    by (simp add: closed_form_location_def L algebra_simps)
  then show ?thesis using s by simp
qed

lemma scale_pos_iff:
  assumes a: "0 < average_income hp" and l: "0 < poverty_line hp"
    and r: "0 \<le> radicand sp hp"
  shows "0 < closed_form_scale sp hp \<longleftrightarrow> 0 < solved_z sp hp \<or> poverty_line hp < average_income hp"
proof -
  let ?z = "solved_z sp hp"
  let ?L = "ln (average_income hp / poverty_line hp)"
  have Lpos: "0 < ?L \<longleftrightarrow> poverty_line hp < average_income hp"
    using a l by (simp add: ln_gt_zero_iff divide_pos_pos)
  have sq: "sqrt (?z ^ 2) = \<bar>?z\<bar>" by simp
  show ?thesis
  proof (cases "0 < ?L")
    case True
    then have "?z ^ 2 < radicand sp hp" by (simp add: radicand_def)
    then have "sqrt (?z ^ 2) < sqrt (radicand sp hp)" by (simp only: real_sqrt_less_iff)
    then have "0 < closed_form_scale sp hp" using sq by (simp add: closed_form_scale_def)
    then show ?thesis using True Lpos by simp
  next
    case False
    then have "radicand sp hp \<le> ?z ^ 2" by (simp add: radicand_def)
    then have "sqrt (radicand sp hp) \<le> sqrt (?z ^ 2)" by (simp only: real_sqrt_le_iff)
    then have le: "sqrt (radicand sp hp) \<le> \<bar>?z\<bar>" using sq by simp
    have ge: "0 \<le> sqrt (radicand sp hp)" using r by simp
    have "0 < closed_form_scale sp hp \<longleftrightarrow> 0 < ?z"
      unfolding closed_form_scale_def using le ge by arith
    then show ?thesis using False Lpos by simp
  qed
qed

section \<open>Runs with fixed library results\<close>

lemma exact_run_z [simp]: "solved_z (exact_run z) hp = z"
  by (simp add: solved_z_def exact_run_def scipy_returning_def)

lemma exact_run_fraction [simp]: "computed_fraction (exact_run z) (Finite u) = norm_cdf u"
  by (simp add: computed_fraction_def exact_run_def scipy_returning_def gauss_quad_def)

lemma stalled_run_z [simp]: "solved_z stalled_run hp = 8"
  by (simp add: solved_z_def stalled_run_def scipy_returning_def)

lemma collapsed_run_z [simp]: "solved_z collapsed_run hp = 0"
  by (simp add: solved_z_def collapsed_run_def scipy_returning_def)

lemma collapsed_run_quad:
  "quad collapsed_run f NegInf (Finite u) =
     (if 77 < u \<and> u < 194 then \<lparr>q_integral = 0, q_abserr = 0, q_ier = 0\<rparr>
      else gauss_quad (Finite u))"
  by (simp add: collapsed_run_def scipy_returning_def collapsed_quad_def)

lemma init_simps [simp]:
  "average_income (HackParams_init a l p) = a"
  "poverty_line (HackParams_init a l p) = l"
  "poverty (HackParams_init a l p) = p / 100"
  by (simp_all add: HackParams_init_def)

text \<open>
  With a poverty rate of 50 per cent the starting estimate 0 of \<^verbatim>\<open>fsolve\<close> is
  already the root, so \<^verbatim>\<open>fsolve\<close> returns it.
\<close>

lemma equation_start: "equation 0 (1 / 2) = 0"
  by (simp add: equation_def norm_cdf_0)

lemma exact_run_find_params:
  "find_params (exact_run 0) (HackParams_init 2 1 50) = Inr (0, sqrt (2 * ln 2))"
  by (simp add: find_params_cases radicand_def closed_form_location_def closed_form_scale_def)

lemma py_round_half: "py_round (1 / 2) 4 = 1 / 2"
  using round_half_even_of_int [of 5000] by (simp add: py_round_def)

section \<open>Bounds on the distribution function\<close>

text \<open>By the mean value theorem, from the derivative of \<open>\<Phi>\<close>.\<close>

lemma norm_cdf_MVT:
  assumes "a < b"
  shows "\<exists>t. a < t \<and> t < b \<and> norm_cdf b - norm_cdf a = (b - a) * (integrand t / sqrt (2 * pi))"
  using assms by (rule MVT2) (rule norm_cdf_deriv)

lemma sqrt_two_pi_bounds: "2 \<le> sqrt (2 * pi)" "sqrt (2 * pi) < 3"
proof -
  have "sqrt 4 \<le> sqrt (2 * pi)" using pi_ge_two by (simp only: real_sqrt_le_iff)
  then show "2 \<le> sqrt (2 * pi)" by simp
  have "2 * pi < 9" using pi_less_4 by simp
  then have "sqrt (2 * pi) < sqrt 9" by (simp only: real_sqrt_less_iff)
  then show "sqrt (2 * pi) < 3" by simp
qed

lemma exp_two_le: "exp (2::real) \<le> 9"
proof -
  have "exp (2::real) = exp 1 * exp 1" by (simp add: exp_add [symmetric])
  also have "\<dots> \<le> 3 * 3" by (intro mult_mono exp_le) simp_all
  finally show ?thesis by simp
qed

lemma norm_cdf_gap:
  assumes "u \<le> - 2"
  shows "norm_cdf u + 1 / 27 \<le> norm_cdf (- 1)"
proof -
  obtain t where t: "- 2 < t" "t < - 1"
    and eq: "norm_cdf (- 1) - norm_cdf (- 2) = (- 1 - (- 2)) * (integrand t / sqrt (2 * pi))"
    using norm_cdf_MVT [of "- 2" "- 1"] by auto
  have "\<bar>t\<bar> \<le> 2" using t by simp
  then have "t ^ 2 \<le> 2 ^ 2" by (simp only: abs_le_square_iff [symmetric])
  then have "- 2 \<le> - (t ^ 2) / 2" by simp
  then have "exp (- 2) \<le> integrand t" by (simp add: integrand_def)
  moreover have "1 / 9 \<le> exp (- 2 :: real)"
    using exp_two_le by (simp add: exp_minus field_simps)
  ultimately have i: "1 / 9 \<le> integrand t" by linarith
  have "1 / 9 / 3 \<le> integrand t / sqrt (2 * pi)"
    using i sqrt_two_pi_bounds by (intro frac_le) simp_all
  moreover have "norm_cdf (- 1) = norm_cdf (- 2) + integrand t / sqrt (2 * pi)"
    using eq by simp
  ultimately have "norm_cdf (- 2) + 1 / 27 \<le> norm_cdf (- 1)" by linarith
  moreover have "norm_cdf u \<le> norm_cdf (- 2)" using assms by (rule norm_cdf_mono)
  ultimately show ?thesis by linarith
qed

subsection \<open>A fit with a negative scale\<close>

text \<open>
  For \<open>reversed_params\<close> the term under the square root lies in \<open>[0, 1)\<close>, so the scale
  \<open>-1 + \<surd>\<dots>\<close> is negative, and a threshold far above the poverty line is standardised
  to a value far below \<open>-1\<close>.
\<close>

lemma reversed_radicand:
  "0 \<le> radicand (exact_run (- 1)) reversed_params"
  "radicand (exact_run (- 1)) reversed_params < 1"
proof -
  have "(3::real) / 2 \<le> exp (1 / 2)" using exp_ge_add_one_self [of "1 / 2 :: real"] by simp
  then have "ln (3 / 2 :: real) \<le> ln (exp (1 / 2))" by (subst ln_le_cancel_iff) simp_all
  then have "ln (3 / 2 :: real) \<le> 1 / 2" by simp
  moreover have "0 < ln (3 / 2 :: real)" by simp
  moreover have "ln (2 / 3 :: real) = - ln (3 / 2)" using ln_div [of 2 "3::real"] ln_div [of 3 "2::real"] by simp
  ultimately show "0 \<le> radicand (exact_run (- 1)) reversed_params"
    "radicand (exact_run (- 1)) reversed_params < 1"
    by (simp_all add: radicand_def reversed_params_def)
qed

lemma reversed_scale:
  "- 1 \<le> closed_form_scale (exact_run (- 1)) reversed_params"
  "closed_form_scale (exact_run (- 1)) reversed_params < 0"
proof -
  let ?r = "radicand (exact_run (- 1)) reversed_params"
  have "0 \<le> sqrt ?r" using reversed_radicand(1) by simp
  then show "- 1 \<le> closed_form_scale (exact_run (- 1)) reversed_params"
    by (simp add: closed_form_scale_def)
  have "sqrt ?r < sqrt 1" using reversed_radicand(2) by (simp only: real_sqrt_less_iff)
  then show "closed_form_scale (exact_run (- 1)) reversed_params < 0"
    by (simp add: closed_form_scale_def)
qed

lemma reversed_location: "closed_form_location (exact_run (- 1)) reversed_params \<le> ln 2"
  by (simp add: closed_form_location_def reversed_params_def)

lemma reversed_far:
  "(ln 20 - closed_form_location (exact_run (- 1)) reversed_params)
     / closed_form_scale (exact_run (- 1)) reversed_params \<le> - 2"
proof -
  let ?m = "closed_form_location (exact_run (- 1)) reversed_params"
  let ?s = "closed_form_scale (exact_run (- 1)) reversed_params"
  have "exp (2::real) \<le> 10" using exp_two_le by simp
  then have "2 \<le> ln (10::real)" by (simp add: ln_ge_iff)
  moreover have "ln (20 :: real) - ln 2 = ln 10" using ln_div [of 20 "2::real"] by simp
  ultimately have n: "2 \<le> ln 20 - ?m" using reversed_location by linarith
  have "(ln 20 - ?m) / ?s \<le> 2 / ?s"
    using n reversed_scale(2) by (intro divide_right_mono_neg) simp_all
  also have "2 / ?s \<le> - 2"
    using reversed_scale by (simp add: field_simps)
  finally show ?thesis .
qed

lemma reversed_find_params:
  "find_params (exact_run (- 1)) reversed_params
     = Inr (closed_form_location (exact_run (- 1)) reversed_params,
            closed_form_scale (exact_run (- 1)) reversed_params)"
  using reversed_radicand(1) by (intro find_params_ok) (simp_all add: reversed_params_def)

lemma reversed_at_line:
  "count_poverty (exact_run (- 1)) reversed_params 3 = Inr (py_round (norm_cdf (- 1)) 4 * 100)"
proof -
  let ?sp = "exact_run (- 1)"
  have "(ln (poverty_line reversed_params) - closed_form_location ?sp reversed_params)
          / closed_form_scale ?sp reversed_params = solved_z ?sp reversed_params"
    using reversed_radicand(1) reversed_scale(2)
    by (intro standardised_line) (simp_all add: reversed_params_def)
  then have "np_divide (ln 3 - closed_form_location ?sp reversed_params)
          (closed_form_scale ?sp reversed_params) = Finite (- 1)"
    using reversed_scale(2) by (simp add: np_divide_def reversed_params_def)
  then show ?thesis
    by (simp add: count_poverty_eq [OF reversed_find_params])
qed

lemma reversed_beyond_line:
  "\<exists>u. u \<le> - 2 \<and>
     count_poverty (exact_run (- 1)) reversed_params 20 = Inr (py_round (norm_cdf u) 4 * 100)"
proof -
  let ?sp = "exact_run (- 1)"
  let ?u = "(ln 20 - closed_form_location ?sp reversed_params) / closed_form_scale ?sp reversed_params"
  have "np_divide (ln 20 - closed_form_location ?sp reversed_params)
          (closed_form_scale ?sp reversed_params) = Finite ?u"
    using reversed_scale(2) by (simp add: np_divide_def)
  then have "count_poverty ?sp reversed_params 20 = Inr (py_round (norm_cdf ?u) 4 * 100)"
    by (simp add: count_poverty_eq [OF reversed_find_params])
  then show ?thesis using reversed_far by blast
qed

section \<open>Numerical bounds\<close>

subsection \<open>The constant \<open>\<pi>\<close>\<close>

text \<open>From Machin's formula and the alternating series of the arc tangent.\<close>

lemma arctan_bounds:
  fixes x :: real
  assumes "0 < x" and "x \<le> 1"
  shows "(\<Sum>i<2 * n. (- 1) ^ i * (1 / real (i * 2 + 1) * x ^ (i * 2 + 1))) \<le> arctan x"
    and "arctan x \<le> (\<Sum>i<2 * n + 1. (- 1) ^ i * (1 / real (i * 2 + 1) * x ^ (i * 2 + 1)))"
proof -
  let ?a = "\<lambda>n. 1 / real (n * 2 + 1) * x ^ (n * 2 + 1)"
  have ax: "\<bar>x\<bar> \<le> 1" using assms by simp
  have "0 < ?a 0" using assms by simp
  then have "\<forall>n. (\<Sum>i. (- 1) ^ i * ?a i)
       \<in> {\<Sum>i<2 * n. (- 1) ^ i * ?a i..\<Sum>i<2 * n + 1. (- 1) ^ i * ?a i}"
    using summable_Leibniz(2) [OF zeroseq_arctan_series [OF ax] monoseq_arctan_series [OF ax]]
    by blast
  then have "(\<Sum>i. (- 1) ^ i * ?a i)
       \<in> {\<Sum>i<2 * n. (- 1) ^ i * ?a i..\<Sum>i<2 * n + 1. (- 1) ^ i * ?a i}"
    by blast
  then show "(\<Sum>i<2 * n. (- 1) ^ i * ?a i) \<le> arctan x"
    and "arctan x \<le> (\<Sum>i<2 * n + 1. (- 1) ^ i * ?a i)"
    by (simp_all add: arctan_series [OF ax])
qed

lemma arctan_fifth:
  "19739550 / 100000000 \<le> arctan (1 / 5 :: real)"
  "arctan (1 / 5 :: real) \<le> 19739557 / 100000000"
proof -
  have "(\<Sum>i<2 * 2. (- 1) ^ i * (1 / real (i * 2 + 1) * (1 / 5 :: real) ^ (i * 2 + 1)))
          \<le> arctan (1 / 5)"
    by (rule arctan_bounds) simp_all
  then show "19739550 / 100000000 \<le> arctan (1 / 5 :: real)"
    by (simp add: eval_nat_numeral)
  have "arctan (1 / 5 :: real)
          \<le> (\<Sum>i<2 * 2 + 1. (- 1) ^ i * (1 / real (i * 2 + 1) * (1 / 5 :: real) ^ (i * 2 + 1)))"
    by (rule arctan_bounds) simp_all
  then show "arctan (1 / 5 :: real) \<le> 19739557 / 100000000"
    by (simp add: eval_nat_numeral)
qed

lemma arctan_239:
  "418407 / 100000000 \<le> arctan (1 / 239 :: real)"
  "arctan (1 / 239 :: real) \<le> 418411 / 100000000"
proof -
  have "(\<Sum>i<2 * 1. (- 1) ^ i * (1 / real (i * 2 + 1) * (1 / 239 :: real) ^ (i * 2 + 1)))
          \<le> arctan (1 / 239)"
    by (rule arctan_bounds) simp_all
  then show "418407 / 100000000 \<le> arctan (1 / 239 :: real)"
    by (simp add: eval_nat_numeral)
  have "arctan (1 / 239 :: real)
          \<le> (\<Sum>i<2 * 0 + 1. (- 1) ^ i * (1 / real (i * 2 + 1) * (1 / 239 :: real) ^ (i * 2 + 1)))"
    by (rule arctan_bounds) simp_all
  then show "arctan (1 / 239 :: real) \<le> 418411 / 100000000"
    by (simp add: eval_nat_numeral)
qed

lemma pi_bounds: "31415915 / 10000000 \<le> pi" "pi \<le> 3141593 / 1000000"
proof -
  have "pi = 16 * arctan (1 / 5) - 4 * arctan (1 / 239)" using machin by simp
  then show "31415915 / 10000000 \<le> pi" "pi \<le> 3141593 / 1000000"
    using arctan_fifth arctan_239 by linarith+
qed

lemma sqrt_two_pi_fine: "2506627 / 1000000 \<le> sqrt (2 * pi)" "sqrt (2 * pi) \<le> 2506629 / 1000000"
proof -
  have "(2506627 / 1000000 :: real) ^ 2 \<le> 2 * pi" using pi_bounds(1) by (simp add: power2_eq_square)
  then have "sqrt ((2506627 / 1000000) ^ 2) \<le> sqrt (2 * pi)" by (simp only: real_sqrt_le_iff)
  then show "2506627 / 1000000 \<le> sqrt (2 * pi)" by simp
  have "2 * pi \<le> (2506629 / 1000000 :: real) ^ 2" using pi_bounds(2) by (simp add: power2_eq_square)
  then have "sqrt (2 * pi) \<le> sqrt ((2506629 / 1000000) ^ 2)" by (simp only: real_sqrt_le_iff)
  then show "sqrt (2 * pi) \<le> 2506629 / 1000000" by simp
qed

subsection \<open>Partial sums enclose the series of \<open>\<Phi>\<close>\<close>

text \<open>
  For \<open>0 \<le> x\<close> and \<open>x\<^sup>2 \<le> 6\<close> the terms of the series decrease in absolute value, so
  the partial sums with an even number of terms lie below the sum and those with an odd
  number above.
\<close>

lemma gauss_term_eq:
  "gauss_coeff n * x ^ (2 * n + 1) = (- 1) ^ n * (\<bar>gauss_coeff n\<bar> * x ^ (2 * n + 1))"
  by (simp add: gauss_coeff_abs) (simp add: gauss_coeff_def)

lemma gauss_term_nonneg: "0 \<le> x \<Longrightarrow> 0 \<le> \<bar>gauss_coeff n\<bar> * x ^ (2 * n + 1)"
  by simp

lemma gauss_coeff_Suc:
  "\<bar>gauss_coeff (Suc n)\<bar> = \<bar>gauss_coeff n\<bar> * (real (2 * n + 1) / (2 * real (n + 1) * real (2 * n + 3)))"
proof -
  have nz: "real (2 * n + 1) / real (2 * n + 1) = 1" by simp
  have "\<bar>gauss_coeff n\<bar> * (real (2 * n + 1) / (2 * real (n + 1) * real (2 * n + 3)))
          = (1 / (2 ^ n * fact n * (2 * real (n + 1) * real (2 * n + 3)))) * (real (2 * n + 1) / real (2 * n + 1))"
    unfolding gauss_coeff_abs by (simp only: times_divide_times_eq mult_ac)
  also have "\<dots> = 1 / (2 ^ n * fact n * (2 * real (n + 1) * real (2 * n + 3)))"
    by (simp only: nz mult_1_right)
  also have "\<dots> = \<bar>gauss_coeff (Suc n)\<bar>"
    by (simp add: gauss_coeff_abs algebra_simps)
  finally show ?thesis by simp
qed

lemma gauss_term_decreasing:
  assumes "0 \<le> x" and "x ^ 2 \<le> 6"
  shows "\<bar>gauss_coeff (Suc n)\<bar> * x ^ (2 * Suc n + 1) \<le> \<bar>gauss_coeff n\<bar> * x ^ (2 * n + 1)"
proof -
  let ?q = "real (2 * n + 1) / (2 * real (n + 1) * real (2 * n + 3))"
  have "real (2 * n + 1) * 6 \<le> 2 * real (n + 1) * real (2 * n + 3)"
  proof -
    have "n \<le> n * n" by (cases n) simp_all
    then have "real n \<le> real (n * n)" by (simp only: of_nat_le_iff)
    then have "real n \<le> real n * real n" by simp
    then show ?thesis by (simp add: algebra_simps)
  qed
  then have q: "?q * 6 \<le> 1" by (simp add: field_simps)
  have q0: "0 \<le> ?q" by simp
  have "?q * x ^ 2 \<le> ?q * 6" using assms(2) q0 by (rule mult_left_mono)
  then have qx: "?q * x ^ 2 \<le> 1" using q by linarith
  have t: "0 \<le> \<bar>gauss_coeff n\<bar> * x ^ (2 * n + 1)" using assms(1) by simp
  have "\<bar>gauss_coeff (Suc n)\<bar> * x ^ (2 * Suc n + 1)
          = (\<bar>gauss_coeff n\<bar> * x ^ (2 * n + 1)) * (?q * x ^ 2)"
    by (simp only: gauss_coeff_Suc) (simp add: power2_eq_square)
  also have "\<dots> \<le> (\<bar>gauss_coeff n\<bar> * x ^ (2 * n + 1)) * 1"
    using qx t by (rule mult_left_mono)
  finally show ?thesis by simp
qed

lemma gauss_term_zero: "(\<lambda>n. \<bar>gauss_coeff n\<bar> * x ^ (2 * n + 1)) \<longlonglongrightarrow> 0"
proof -
  have "(\<lambda>n. gauss_coeff n * (x ^ 2) ^ n) \<longlonglongrightarrow> 0"
    by (rule summable_LIMSEQ_zero) (rule gauss_coeff_summable)
  then have "(\<lambda>n. \<bar>gauss_coeff n * (x ^ 2) ^ n\<bar>) \<longlonglongrightarrow> 0"
    by (simp only: tendsto_rabs_zero_iff)
  then have "(\<lambda>n. x * \<bar>gauss_coeff n * (x ^ 2) ^ n\<bar>) \<longlonglongrightarrow> 0"
    by (rule tendsto_mult_right_zero)
  moreover have "x * \<bar>gauss_coeff n * (x ^ 2) ^ n\<bar> = \<bar>gauss_coeff n\<bar> * x ^ (2 * n + 1)" for n
    by (simp add: abs_mult power_mult)
  ultimately show ?thesis by simp
qed

lemma gauss_area_bounds:
  assumes "0 \<le> x" and "x ^ 2 \<le> 6"
  shows "gauss_partial x (2 * n) \<le> gauss_area x"
    and "gauss_area x \<le> gauss_partial x (2 * n + 1)"
proof -
  let ?a = "\<lambda>n. \<bar>gauss_coeff n\<bar> * x ^ (2 * n + 1)"
  have nn: "\<And>n. 0 \<le> ?a n" using assms(1) by simp
  have dec: "\<And>n. ?a (Suc n) \<le> ?a n" using assms by (rule gauss_term_decreasing)
  have area: "gauss_area x = (\<Sum>i. (- 1) ^ i * ?a i)"
    unfolding gauss_area_def by (simp only: gauss_term_eq [symmetric])
  have part: "gauss_partial x m = (\<Sum>i<m. (- 1) ^ i * ?a i)" for m
    unfolding gauss_partial_def by (simp only: gauss_term_eq [symmetric])
  show "gauss_partial x (2 * n) \<le> gauss_area x"
    unfolding area part by (rule summable_Leibniz'(2) [OF gauss_term_zero nn dec])
  show "gauss_area x \<le> gauss_partial x (2 * n + 1)"
    unfolding area part by (rule summable_Leibniz'(4) [OF gauss_term_zero nn dec])
qed

lemma gauss_area_odd: "gauss_area (- x) = - gauss_area x"
  by (simp add: gauss_area_series)

lemma norm_cdf_neg: "norm_cdf (- x) = 1 / 2 - gauss_area x / sqrt (2 * pi)"
  by (simp add: norm_cdf_def gauss_area_odd)

lemma gauss_partial_Suc:
  "gauss_partial x (Suc n) = gauss_partial x n + gauss_coeff n * x ^ (2 * n + 1)"
  by (simp add: gauss_partial_def)

lemma gauss_partial_0: "gauss_partial x 0 = 0"
  by (simp add: gauss_partial_def)

lemma gauss_partial_8:
  "gauss_partial x 8 = x - x ^ 3 / 6 + x ^ 5 / 40 - x ^ 7 / 336 + x ^ 9 / 3456
      - x ^ 11 / 42240 + x ^ 13 / 599040 - x ^ 15 / 9676800"
  by (simp add: eval_nat_numeral gauss_partial_Suc gauss_partial_0 gauss_coeff_def)

lemma gauss_partial_9:
  "gauss_partial x 9 = x - x ^ 3 / 6 + x ^ 5 / 40 - x ^ 7 / 336 + x ^ 9 / 3456
      - x ^ 11 / 42240 + x ^ 13 / 599040 - x ^ 15 / 9676800 + x ^ 17 / 175472640"
  by (simp add: eval_nat_numeral gauss_partial_Suc gauss_partial_0 gauss_coeff_def)

lemma gauss_area_nonneg: "0 \<le> x \<Longrightarrow> x ^ 2 \<le> 6 \<Longrightarrow> 0 \<le> gauss_area x"
  using gauss_area_bounds(1) [of x 0] by (simp add: gauss_partial_0)

lemma norm_cdf_neg_le:
  assumes "0 \<le> x" and "x ^ 2 \<le> 6" and "0 \<le> gauss_partial x 8"
    and "1 / 2 - gauss_partial x 8 / (2506629 / 1000000) \<le> c"
  shows "norm_cdf (- x) \<le> c"
proof -
  have g: "gauss_partial x 8 \<le> gauss_area x"
    using gauss_area_bounds(1) [OF assms(1,2), of 4] by simp
  have "gauss_partial x 8 / (2506629 / 1000000) \<le> gauss_area x / sqrt (2 * pi)"
    using g assms(3) sqrt_two_pi_fine(1,2) by (intro frac_le) simp_all
  moreover have "norm_cdf (- x) = 1 / 2 - gauss_area x / sqrt (2 * pi)" by (rule norm_cdf_neg)
  ultimately show ?thesis using assms(4) by linarith
qed

lemma norm_cdf_neg_ge:
  assumes "0 \<le> x" and "x ^ 2 \<le> 6"
    and "c \<le> 1 / 2 - gauss_partial x 9 / (2506627 / 1000000)"
  shows "c \<le> norm_cdf (- x)"
proof -
  have g: "gauss_area x \<le> gauss_partial x 9"
    using gauss_area_bounds(2) [OF assms(1,2), of 4] by simp
  have "gauss_area x / sqrt (2 * pi) \<le> gauss_partial x 9 / (2506627 / 1000000)"
    using g gauss_area_nonneg [OF assms(1,2)] sqrt_two_pi_fine(1) by (intro frac_le) simp_all
  moreover have "norm_cdf (- x) = 1 / 2 - gauss_area x / sqrt (2 * pi)" by (rule norm_cdf_neg)
  ultimately show ?thesis using assms(3) by linarith
qed

lemma phi_at_12933: "norm_cdf (- (12933 / 10000)) \<le> 97955 / 1000000"
  by (rule norm_cdf_neg_le) (simp_all add: gauss_partial_8 power_divide)

lemma phi_at_12927: "98057 / 1000000 \<le> norm_cdf (- (12927 / 10000))"
  by (rule norm_cdf_neg_ge) (simp_all add: gauss_partial_9 power_divide)

lemma phi_at_1293:
  "98005 / 1000000 \<le> norm_cdf (- (1293 / 1000))"
  "norm_cdf (- (1293 / 1000)) \<le> 98006 / 1000000"
proof -
  show "98005 / 1000000 \<le> norm_cdf (- (1293 / 1000))"
    by (rule norm_cdf_neg_ge) (simp_all add: gauss_partial_9 power_divide)
  show "norm_cdf (- (1293 / 1000)) \<le> 98006 / 1000000"
    by (rule norm_cdf_neg_le) (simp_all add: gauss_partial_8 power_divide)
qed

lemma phi_at_11961: "11582 / 100000 \<le> norm_cdf (- (11961 / 10000))"
  by (rule norm_cdf_neg_ge) (simp_all add: gauss_partial_9 power_divide)

lemma phi_at_11933: "norm_cdf (- (11933 / 10000)) \<le> 11638 / 100000"
  by (rule norm_cdf_neg_le) (simp_all add: gauss_partial_8 power_divide)

lemma phi_at_1: "158655 / 1000000 \<le> norm_cdf (- 1)" "norm_cdf (- 1) \<le> 158656 / 1000000"
proof -
  show "158655 / 1000000 \<le> norm_cdf (- 1)"
    by (rule norm_cdf_neg_ge) (simp_all add: gauss_partial_9)
  show "norm_cdf (- 1) \<le> 158656 / 1000000"
    by (rule norm_cdf_neg_le) (simp_all add: gauss_partial_8)
qed

subsection \<open>Exponential and logarithm\<close>

lemma exp_lower_bound:
  assumes "0 \<le> x"
  shows "exp_partial x n \<le> exp x"
proof -
  obtain t where "exp x = (\<Sum>m<n. x ^ m / fact m) + exp t / fact n * x ^ n"
    using Maclaurin_exp_le [of x n] by blast
  moreover have "0 \<le> exp t / fact n * x ^ n" using assms by simp
  ultimately show ?thesis by (simp add: exp_partial_def)
qed

lemma exp_upper_bound:
  assumes "0 \<le> x" and "x \<le> 1"
  shows "exp x \<le> exp_partial x n + 3 * x ^ n / fact n"
proof -
  obtain t where t: "\<bar>t\<bar> \<le> \<bar>x\<bar>"
    and e: "exp x = (\<Sum>m<n. x ^ m / fact m) + exp t / fact n * x ^ n"
    using Maclaurin_exp_le [of x n] by blast
  have "t \<le> 1" using t assms by linarith
  then have "exp t \<le> exp 1" by simp
  then have "exp t \<le> 3" using exp_le by linarith
  then have "exp t * (x ^ n / fact n) \<le> 3 * (x ^ n / fact n)"
    using assms(1) by (intro mult_right_mono) simp_all
  then show ?thesis using e by (simp add: exp_partial_def)
qed

lemma ln_lower_bound:
  assumes "0 \<le> a" and "a \<le> 1" and "exp_partial a n + 3 * a ^ n / fact n \<le> y"
  shows "a \<le> ln y"
proof -
  have e: "exp a \<le> y" using exp_upper_bound [OF assms(1,2), of n] assms(3) by linarith
  then have "0 < y" using exp_gt_zero [of a] by linarith
  then show ?thesis using e by (simp add: ln_ge_iff)
qed

lemma ln_upper_bound:
  assumes "0 \<le> b" and "0 < y" and "y \<le> exp_partial b n"
  shows "ln y \<le> b"
proof -
  have "y \<le> exp b" using exp_lower_bound [OF assms(1), of n] assms(3) by linarith
  then have "ln y \<le> ln (exp b)" using assms(2) by (subst ln_le_cancel_iff) simp_all
  then show ?thesis by simp
qed

lemma exp_partial_12:
  "exp_partial x 12 = 1 + x + x ^ 2 / 2 + x ^ 3 / 6 + x ^ 4 / 24 + x ^ 5 / 120 + x ^ 6 / 720
     + x ^ 7 / 5040 + x ^ 8 / 40320 + x ^ 9 / 362880 + x ^ 10 / 3628800 + x ^ 11 / 39916800"
  by (simp add: exp_partial_def eval_nat_numeral)

lemma ln_2_bounds: "693147 / 1000000 \<le> ln (2::real)" "ln (2::real) \<le> 693148 / 1000000"
proof -
  show "693147 / 1000000 \<le> ln (2::real)"
    by (rule ln_lower_bound [where n = 12]) (simp_all add: exp_partial_12 fact_numeral power_divide)
  show "ln (2::real) \<le> 693148 / 1000000"
    by (rule ln_upper_bound [where n = 12]) (simp_all add: exp_partial_12 power_divide)
qed

lemma ln_income_bounds: "10713014 / 1000000 \<le> ln (44937::real)" "ln (44937::real) \<le> 10713030 / 1000000"
proof -
  have lo: "315809 / 1000000 \<le> ln (44937 / 32768 :: real)"
    by (rule ln_lower_bound [where n = 12]) (simp_all add: exp_partial_12 fact_numeral power_divide)
  have hi: "ln (44937 / 32768 :: real) \<le> 315810 / 1000000"
    by (rule ln_upper_bound [where n = 12]) (simp_all add: exp_partial_12 power_divide)
  have "ln (44937 / 32768 :: real) = ln 44937 - ln (2 ^ 15)"
    by (subst ln_div) simp_all
  also have "ln ((2::real) ^ 15) = 15 * ln 2" by (simp only: ln_realpow of_nat_numeral)
  finally have "ln (44937::real) = ln (44937 / 32768) + 15 * ln 2" by simp
  then show "10713014 / 1000000 \<le> ln (44937::real)" "ln (44937::real) \<le> 10713030 / 1000000"
    using lo hi ln_2_bounds by linarith+
qed

lemma ln_ratio_bounds:
  "1199243 / 1000000 \<le> ln (44937 / 13545 :: real)" "ln (44937 / 13545 :: real) \<le> 1199245 / 1000000"
proof -
  have lo: "506096 / 1000000 \<le> ln (44937 / 27090 :: real)"
    by (rule ln_lower_bound [where n = 12]) (simp_all add: exp_partial_12 fact_numeral power_divide)
  have hi: "ln (44937 / 27090 :: real) \<le> 506097 / 1000000"
    by (rule ln_upper_bound [where n = 12]) (simp_all add: exp_partial_12 power_divide)
  have "ln (44937 / 13545 :: real) = ln ((44937 / 27090) * 2)" by simp
  also have "\<dots> = ln (44937 / 27090 :: real) + ln 2"
    by (rule ln_mult_pos) simp_all
  finally show "1199243 / 1000000 \<le> ln (44937 / 13545 :: real)"
    "ln (44937 / 13545 :: real) \<le> 1199245 / 1000000"
    using lo hi ln_2_bounds by linarith+
qed

lemma ln_threshold_bounds: "9585000 / 1000000 \<le> ln (14545::real)" "ln (14545::real) \<le> 9585014 / 1000000"
proof -
  have lo: "574089 / 1000000 \<le> ln (14545 / 8192 :: real)"
    by (rule ln_lower_bound [where n = 12]) (simp_all add: exp_partial_12 fact_numeral power_divide)
  have hi: "ln (14545 / 8192 :: real) \<le> 574090 / 1000000"
    by (rule ln_upper_bound [where n = 12]) (simp_all add: exp_partial_12 power_divide)
  have "ln (14545 / 8192 :: real) = ln 14545 - ln (2 ^ 13)"
    by (subst ln_div) simp_all
  also have "ln ((2::real) ^ 13) = 13 * ln 2" by (simp only: ln_realpow of_nat_numeral)
  finally have "ln (14545::real) = ln (14545 / 8192) + 13 * ln 2" by simp
  then show "9585000 / 1000000 \<le> ln (14545::real)" "ln (14545::real) \<le> 9585014 / 1000000"
    using lo hi ln_2_bounds by linarith+
qed

subsection \<open>The reference example, interval by interval\<close>

lemma z_bracket:
  assumes "\<bar>norm_cdf z - 98 / 1000\<bar> \<le> 1 / 50000"
  shows "- (12933 / 10000) \<le> z" and "z \<le> - (12927 / 10000)"
proof -
  show "- (12933 / 10000) \<le> z"
  proof (rule ccontr)
    assume "\<not> - (12933 / 10000) \<le> z"
    then have "norm_cdf z \<le> norm_cdf (- (12933 / 10000))" by (intro norm_cdf_mono) simp
    then show False using phi_at_12933 assms by linarith
  qed
  show "z \<le> - (12927 / 10000)"
  proof (rule ccontr)
    assume "\<not> z \<le> - (12927 / 10000)"
    then have "norm_cdf (- (12927 / 10000)) \<le> norm_cdf z" by (intro norm_cdf_mono) simp
    then show False using phi_at_12927 assms by linarith
  qed
qed

lemma fit_bracket:
  assumes "- (12933 / 10000) \<le> z" and "z \<le> - (12927 / 10000)"
  shows "0 \<le> z ^ 2 + 2 * ln (44937 / 13545)"
    and "724014 / 1000000 \<le> z + sqrt (z ^ 2 + 2 * ln (44937 / 13545))"
    and "z + sqrt (z ^ 2 + 2 * ln (44937 / 13545)) \<le> 725001 / 1000000"
proof -
  let ?R = "z ^ 2 + 2 * ln (44937 / 13545)"
  have "\<bar>12927 / 10000\<bar> \<le> \<bar>z\<bar>" using assms by simp
  then have z1: "(12927 / 10000) ^ 2 \<le> z ^ 2" by (simp only: abs_le_square_iff)
  have "\<bar>z\<bar> \<le> \<bar>12933 / 10000\<bar>" using assms by simp
  then have z2: "z ^ 2 \<le> (12933 / 10000) ^ 2" by (simp only: abs_le_square_iff)
  have lo: "(2017314 / 1000000) ^ 2 \<le> ?R"
    using z1 ln_ratio_bounds(1) by (simp add: power_divide)
  have hi: "?R \<le> (2017701 / 1000000) ^ 2"
    using z2 ln_ratio_bounds(2) by (simp add: power_divide)
  show "0 \<le> ?R" using lo by (simp add: power_divide)
  have "2017314 / 1000000 \<le> sqrt ?R" using lo by (rule real_le_rsqrt)
  then show "724014 / 1000000 \<le> z + sqrt ?R" using assms(1) by linarith
  have "sqrt ?R \<le> 2017701 / 1000000" using hi by (intro real_le_lsqrt) simp_all
  then show "z + sqrt ?R \<le> 725001 / 1000000" using assms(2) by linarith
qed

lemma location_bracket:
  fixes s :: real
  assumes "724014 / 1000000 \<le> s" and "s \<le> 725001 / 1000000"
  shows "10450200 / 1000000 \<le> ln 44937 - 0.5 * s ^ 2"
    and "ln 44937 - 0.5 * s ^ 2 \<le> 10450932 / 1000000"
proof -
  have "\<bar>724014 / 1000000\<bar> \<le> \<bar>s\<bar>" using assms by simp
  then have s1: "(724014 / 1000000) ^ 2 \<le> s ^ 2" by (simp only: abs_le_square_iff)
  have "\<bar>s\<bar> \<le> \<bar>725001 / 1000000\<bar>" using assms by simp
  then have s2: "s ^ 2 \<le> (725001 / 1000000) ^ 2" by (simp only: abs_le_square_iff)
  show "10450200 / 1000000 \<le> ln 44937 - 0.5 * s ^ 2"
    using s2 ln_income_bounds(1) by (simp add: power_divide)
  show "ln 44937 - 0.5 * s ^ 2 \<le> 10450932 / 1000000"
    using s1 ln_income_bounds(2) by (simp add: power_divide)
qed

lemma standardised_bracket:
  fixes s m :: real
  assumes "724014 / 1000000 \<le> s" and "s \<le> 725001 / 1000000"
    and "10450200 / 1000000 \<le> m" and "m \<le> 10450932 / 1000000"
  shows "- (11961 / 10000) \<le> (ln 14545 - m) / s" and "(ln 14545 - m) / s \<le> - (11933 / 10000)"
proof -
  have s: "0 < s" using assms(1) by linarith
  have "- (11961 / 10000) * s \<le> ln 14545 - m"
    using assms ln_threshold_bounds by linarith
  then show "- (11961 / 10000) \<le> (ln 14545 - m) / s"
    using s by (simp only: pos_le_divide_eq)
  have "ln 14545 - m \<le> - (11933 / 10000) * s"
    using assms ln_threshold_bounds by linarith
  then show "(ln 14545 - m) / s \<le> - (11933 / 10000)"
    using s by (simp only: pos_divide_le_eq)
qed

section \<open>The Gaussian integral\<close>

text \<open>
  The integral of the integrand over the whole line is \<open>\<surd>(2\<pi>)\<close>, so that
  \<open>\<surd>(2\<pi>) \<Phi>(u)\<close> is its integral from \<open>-\<infinity>\<close> to \<open>u\<close>. The proof compares the
  integrand, after the substitution \<open>x = \<surd>(2n) t\<close>, with \<open>(1 - t\<^sup>2)\<^sup>n\<close> from below and
  with \<open>(1 + t\<^sup>2)\<^sup>-\<^sup>n\<close> from above; both have antiderivatives in closed form, whose
  values are Wallis integrals.
\<close>

subsection \<open>Wallis integrals\<close>

lemma cos_int_deriv: "(cos_int k has_real_derivative cos t ^ k) (at t)"
proof (induction k t rule: cos_int.induct)
  case (1 t)
  show ?case by (auto intro!: derivative_eq_intros simp: cos_int.simps [abs_def])
next
  case (2 t)
  have "cos_int (Suc 0) = sin" by (rule ext) simp
  then show ?case by (auto intro!: derivative_eq_intros)
next
  case (3 k t)
  have eq: "cos_int (Suc (Suc k)) =
      (\<lambda>t. (cos t ^ Suc k * sin t + real (Suc k) * cos_int k t) / real (Suc (Suc k)))"
    by (rule ext) simp
  have s2: "sin t ^ 2 = 1 - cos t ^ 2" by (rule sin_squared_eq)
  have "((\<lambda>t. (cos t ^ Suc k * sin t + real (Suc k) * cos_int k t) / real (Suc (Suc k)))
          has_real_derivative
        ((real (Suc k) * cos t ^ k * (- sin t)) * sin t + cos t ^ Suc k * cos t
           + real (Suc k) * cos t ^ k) / real (Suc (Suc k))) (at t)"
    by (rule derivative_eq_intros "3.IH" refl | simp)+
  moreover have "((real (Suc k) * cos t ^ k * (- sin t)) * sin t + cos t ^ Suc k * cos t
           + real (Suc k) * cos t ^ k) / real (Suc (Suc k)) = cos t ^ Suc (Suc k)"
  proof -
    have ss: "sin t * sin t = 1 - cos t * cos t"
      using s2 by (simp add: power2_eq_square)
    have "(real (Suc k) * cos t ^ k * (- sin t)) * sin t
            = - (real (Suc k) * cos t ^ k) * (sin t * sin t)" by simp
    also have "\<dots> = - (real (Suc k) * cos t ^ k) * (1 - cos t * cos t)"
      by (simp only: ss)
    finally have t1: "(real (Suc k) * cos t ^ k * (- sin t)) * sin t
            = - (real (Suc k) * cos t ^ k) * (1 - cos t * cos t)" .
    have "- (real (Suc k) * cos t ^ k) * (1 - cos t * cos t) + cos t ^ Suc k * cos t
           + real (Suc k) * cos t ^ k = real (Suc (Suc k)) * cos t ^ Suc (Suc k)"
      by (simp add: algebra_simps)
    then have "(real (Suc k) * cos t ^ k * (- sin t)) * sin t + cos t ^ Suc k * cos t
           + real (Suc k) * cos t ^ k = real (Suc (Suc k)) * cos t ^ Suc (Suc k)"
      by (simp only: t1)
    then show ?thesis by simp
  qed
  ultimately show ?case by (simp only: eq)
qed

lemma deriv_le_imp_diff_le:
  fixes f g :: "real \<Rightarrow> real"
  assumes "a \<le> b"
    and "\<And>x. a \<le> x \<Longrightarrow> x \<le> b \<Longrightarrow> (f has_real_derivative f' x) (at x)"
    and "\<And>x. a \<le> x \<Longrightarrow> x \<le> b \<Longrightarrow> (g has_real_derivative g' x) (at x)"
    and "\<And>x. a \<le> x \<Longrightarrow> x \<le> b \<Longrightarrow> f' x \<le> g' x"
  shows "f b - f a \<le> g b - g a"
proof -
  have "(\<lambda>x. g x - f x) a \<le> (\<lambda>x. g x - f x) b"
  proof (rule DERIV_nonneg_imp_nondecreasing [OF assms(1)])
    fix x assume x: "a \<le> x" "x \<le> b"
    have "((\<lambda>x. g x - f x) has_real_derivative g' x - f' x) (at x)"
      by (rule DERIV_diff [OF assms(3) [OF x] assms(2) [OF x]])
    moreover have "0 \<le> g' x - f' x" using assms(4) [OF x] by simp
    ultimately show "\<exists>y. ((\<lambda>x. g x - f x) has_real_derivative y) (at x) \<and> 0 \<le> y" by blast
  qed
  then show ?thesis by simp
qed

lemma cos_int_0: "cos_int k 0 = 0"
  by (induction k "0::real" rule: cos_int.induct) simp_all

lemma wallis_0: "wallis 0 = pi / 2"
  by (simp add: wallis_def)

lemma wallis_1: "wallis (Suc 0) = 1"
  by (simp add: wallis_def)

lemma wallis_Suc_Suc: "wallis (Suc (Suc k)) = real (Suc k) / real (Suc (Suc k)) * wallis k"
  by (simp add: wallis_def)

lemma wallis_pos: "0 < wallis k"
proof (induction k rule: less_induct)
  case (less k)
  show ?case
  proof (cases k)
    case 0
    then show ?thesis by (simp add: wallis_0)
  next
    case (Suc j)
    show ?thesis
    proof (cases j)
      case 0
      then show ?thesis using Suc by (simp add: wallis_1)
    next
      case (Suc i)
      have "0 < wallis i" using less \<open>k = Suc j\<close> Suc by simp
      then show ?thesis
        unfolding \<open>k = Suc j\<close> Suc wallis_Suc_Suc by (intro mult_pos_pos divide_pos_pos) simp_all
    qed
  qed
qed

lemma wallis_product: "real (Suc k) * wallis (Suc k) * wallis k = pi / 2"
proof (induction k)
  case 0
  show ?case by (simp add: wallis_0 wallis_1)
next
  case (Suc k)
  have "real (Suc (Suc k)) * wallis (Suc (Suc k)) = real (Suc k) * wallis k"
    by (simp add: wallis_Suc_Suc)
  then have "real (Suc (Suc k)) * wallis (Suc (Suc k)) * wallis (Suc k)
          = real (Suc k) * wallis k * wallis (Suc k)"
    by (simp only:)
  also have "\<dots> = real (Suc k) * wallis (Suc k) * wallis k" by (simp only: mult_ac)
  finally show ?case using Suc by (simp only:)
qed

lemma wallis_decreasing: "wallis (Suc k) \<le> wallis k"
proof -
  have "cos_int (Suc k) (pi / 2) - cos_int (Suc k) 0 \<le> cos_int k (pi / 2) - cos_int k 0"
  proof (rule deriv_le_imp_diff_le)
    show "0 \<le> pi / 2" by simp
    show "(cos_int (Suc k) has_real_derivative cos x ^ Suc k) (at x)" for x
      by (rule cos_int_deriv)
    show "(cos_int k has_real_derivative cos x ^ k) (at x)" for x
      by (rule cos_int_deriv)
    fix x :: real assume "0 \<le> x" "x \<le> pi / 2"
    then have c: "0 \<le> cos x" by (intro cos_ge_zero) simp_all
    have "cos x ^ k * cos x \<le> cos x ^ k * 1"
      using c by (intro mult_left_mono) simp_all
    then show "cos x ^ Suc k \<le> cos x ^ k" by (simp add: mult.commute)
  qed
  then show ?thesis by (simp add: wallis_def cos_int_0)
qed

subsection \<open>The bound from above\<close>

lemma cos_int_le_wallis:
  assumes "0 \<le> t" and "t \<le> pi / 2"
  shows "cos_int (2 * m) t \<le> wallis (2 * m)"
proof -
  have "cos_int (2 * m) t \<le> cos_int (2 * m) (pi / 2)"
  proof (rule DERIV_nonneg_imp_nondecreasing [OF assms(2)])
    fix x :: real
    have "(cos_int (2 * m) has_real_derivative cos x ^ (2 * m)) (at x)" by (rule cos_int_deriv)
    moreover have "0 \<le> cos x ^ (2 * m)" by (simp add: power_mult)
    ultimately show "\<exists>y. (cos_int (2 * m) has_real_derivative y) (at x) \<and> 0 \<le> y" by blast
  qed
  then show ?thesis by (simp add: wallis_def)
qed

lemma cos_arctan_power: "cos (arctan t) ^ (2 * m) = (1 / (1 + t ^ 2)) ^ m"
proof -
  have "cos (arctan t) ^ 2 = 1 / (1 + t ^ 2)"
    by (simp add: cos_arctan power_divide)
  then show ?thesis by (simp add: power_mult)
qed

lemma comparator_deriv:
  "((\<lambda>t. cos_int (2 * m) (arctan t)) has_real_derivative (1 / (1 + t ^ 2)) ^ Suc m) (at t)"
proof -
  have "((\<lambda>t. cos_int (2 * m) (arctan t)) has_real_derivative
          cos (arctan t) ^ (2 * m) * inverse (1 + t ^ 2)) (at t)"
    by (rule DERIV_chain2 [OF cos_int_deriv DERIV_arctan])
  then show ?thesis by (simp add: cos_arctan_power inverse_eq_divide)
qed

lemma scaled_area_deriv:
  assumes "0 < s"
  shows "((\<lambda>t. gauss_area (s * t) / s) has_real_derivative exp (- (s ^ 2 / 2) * t ^ 2)) (at t)"
proof -
  have d1: "((\<lambda>t. s * t) has_real_derivative s) (at t)"
    by (auto intro!: derivative_eq_intros)
  have d2: "((\<lambda>t. gauss_area (s * t)) has_real_derivative integrand (s * t) * s) (at t)"
    by (rule DERIV_chain2 [OF gauss_area_deriv d1])
  have "((\<lambda>t. gauss_area (s * t) / s) has_real_derivative (integrand (s * t) * s) / s) (at t)"
    by (rule DERIV_cdivide [OF d2])
  moreover have "(integrand (s * t) * s) / s = exp (- (s ^ 2 / 2) * t ^ 2)"
    using assms by (simp add: integrand_def power_mult_distrib)
  ultimately show ?thesis by simp
qed

lemma exp_neg_square_le: "exp (- (t ^ 2)) \<le> 1 / (1 + t ^ 2)" for t :: real
proof -
  have "1 + t ^ 2 \<le> exp (t ^ 2)" by (rule exp_ge_add_one_self)
  then have "1 / exp (t ^ 2) \<le> 1 / (1 + t ^ 2)"
    by (intro divide_left_mono) (simp_all add: add_pos_nonneg)
  then show ?thesis by (simp add: exp_minus inverse_eq_divide)
qed

lemma exp_scaled_le: "exp (- (real n) * t ^ 2) \<le> (1 / (1 + t ^ 2)) ^ n" for t :: real
proof -
  have "exp (- (real n) * t ^ 2) = exp (real n * (- (t ^ 2)))" by simp
  also have "\<dots> = exp (- (t ^ 2)) ^ n" by (rule exp_of_nat_mult)
  also have "\<dots> \<le> (1 / (1 + t ^ 2)) ^ n"
    by (intro power_mono exp_neg_square_le) simp
  finally show ?thesis .
qed

lemma gauss_area_upper_wallis:
  assumes "0 \<le> x"
  shows "gauss_area x \<le> sqrt (2 * real (Suc m)) * wallis (2 * m)"
proof -
  let ?s = "sqrt (2 * real (Suc m))"
  have s: "0 < ?s" by simp
  have s2: "?s ^ 2 / 2 = real (Suc m)" by simp
  let ?t = "x / ?s"
  have t: "0 \<le> ?t" using assms s by simp
  have "gauss_area (?s * ?t) / ?s - gauss_area (?s * 0) / ?s
          \<le> cos_int (2 * m) (arctan ?t) - cos_int (2 * m) (arctan 0)"
  proof (rule deriv_le_imp_diff_le [OF t])
    show "((\<lambda>t. gauss_area (?s * t) / ?s) has_real_derivative exp (- (real (Suc m)) * y ^ 2)) (at y)"
      for y using scaled_area_deriv [OF s, of y] by (simp only: s2)
    show "((\<lambda>t. cos_int (2 * m) (arctan t)) has_real_derivative (1 / (1 + y ^ 2)) ^ Suc m) (at y)"
      for y by (rule comparator_deriv)
    show "exp (- (real (Suc m)) * y ^ 2) \<le> (1 / (1 + y ^ 2)) ^ Suc m" for y
      by (rule exp_scaled_le)
  qed
  then have "gauss_area x / ?s \<le> cos_int (2 * m) (arctan ?t)"
    using s by (simp add: gauss_area_0 cos_int_0)
  also have "\<dots> \<le> wallis (2 * m)"
  proof (rule cos_int_le_wallis)
    show "0 \<le> arctan ?t" using t by simp
    show "arctan ?t \<le> pi / 2" using arctan_ubound [of ?t] by simp
  qed
  finally show ?thesis using s by (simp add: field_simps)
qed

lemma gauss_area_nonneg_all: "0 \<le> x \<Longrightarrow> 0 \<le> gauss_area x"
proof -
  assume x: "0 \<le> x"
  have "gauss_area 0 \<le> gauss_area x"
  proof (rule DERIV_nonneg_imp_nondecreasing [OF x])
    fix y :: real
    show "\<exists>d. (gauss_area has_real_derivative d) (at y) \<and> 0 \<le> d"
      using gauss_area_deriv [of y] integrand_pos [of y] by (intro exI [of _ "integrand y"]) simp
  qed
  then show ?thesis by (simp add: gauss_area_0)
qed

lemma gauss_area_mono: "x \<le> y \<Longrightarrow> gauss_area x \<le> gauss_area y"
proof -
  assume xy: "x \<le> y"
  show "gauss_area x \<le> gauss_area y"
  proof (rule DERIV_nonneg_imp_nondecreasing [OF xy])
    fix t :: real
    show "\<exists>d. (gauss_area has_real_derivative d) (at t) \<and> 0 \<le> d"
      using gauss_area_deriv [of t] integrand_pos [of t] by (intro exI [of _ "integrand t"]) simp
  qed
qed

lemma gauss_area_square_upper:
  assumes "0 \<le> x"
  shows "gauss_area x ^ 2 \<le> pi / 2 * (1 + 1 / real (Suc j))"
proof -
  let ?w = "wallis (2 * Suc j)" and ?v = "wallis (Suc (2 * j))"
  have g0: "0 \<le> gauss_area x" using assms by (rule gauss_area_nonneg_all)
  have up: "gauss_area x \<le> sqrt (2 * real (Suc (Suc j))) * ?w"
    using assms by (rule gauss_area_upper_wallis)
  have w0: "0 < ?w" by (rule wallis_pos)
  have "?w \<le> ?v" using wallis_decreasing [of "Suc (2 * j)"] by simp
  then have ww: "?w * ?w \<le> ?w * ?v" using w0 by (intro mult_left_mono) simp_all
  have prod: "real (Suc (Suc (2 * j))) * ?w * ?v = pi / 2"
    using wallis_product [of "Suc (2 * j)"] by simp
  have "gauss_area x ^ 2 \<le> (sqrt (2 * real (Suc (Suc j))) * ?w) ^ 2"
    using g0 up by (intro power_mono) simp_all
  also have "\<dots> = 2 * real (Suc (Suc j)) * (?w * ?w)"
    by (simp add: power_mult_distrib power2_eq_square)
  also have "\<dots> \<le> 2 * real (Suc (Suc j)) * (?w * ?v)"
    using ww by (rule mult_left_mono) simp
  also have "\<dots> = (2 * real (Suc (Suc j)) / real (Suc (Suc (2 * j)))) * (real (Suc (Suc (2 * j))) * ?w * ?v)"
    by simp
  also have "\<dots> = (2 * real (Suc (Suc j)) / real (Suc (Suc (2 * j)))) * (pi / 2)"
    by (simp only: prod)
  also have "\<dots> = pi / 2 * (1 + 1 / real (Suc j))"
    by (simp add: field_simps)
  finally show ?thesis .
qed

lemma gauss_area_square_le:
  assumes "0 \<le> x"
  shows "gauss_area x ^ 2 \<le> pi / 2"
proof (rule ccontr)
  assume "\<not> gauss_area x ^ 2 \<le> pi / 2"
  then have d: "0 < (gauss_area x ^ 2 - pi / 2) / (pi / 2)" by simp
  obtain j where j: "inverse (real (Suc j)) < (gauss_area x ^ 2 - pi / 2) / (pi / 2)"
    using reals_Archimedean [OF d] by blast
  then have "pi / 2 * (1 / real (Suc j)) < gauss_area x ^ 2 - pi / 2"
    by (simp add: field_simps)
  then have "pi / 2 * (1 + 1 / real (Suc j)) < gauss_area x ^ 2"
    by (simp add: algebra_simps)
  then show False using gauss_area_square_upper [OF assms, of j] by linarith
qed

subsection \<open>The bound from below\<close>

lemma poly_int_deriv: "(poly_int n has_real_derivative (1 - x ^ 2) ^ n) (at x)"
proof (induction n)
  case 0
  show ?case by (auto intro!: derivative_eq_intros simp: poly_int.simps [abs_def])
next
  case (Suc n)
  let ?q = "1 - x ^ 2"
  have eq: "poly_int (Suc n) =
      (\<lambda>x. (x * (1 - x ^ 2) ^ Suc n + 2 * real (Suc n) * poly_int n x) / real (2 * n + 3))"
    by (rule ext) simp
  have "((\<lambda>x. (x * (1 - x ^ 2) ^ Suc n + 2 * real (Suc n) * poly_int n x) / real (2 * n + 3))
          has_real_derivative
        (1 * ?q ^ Suc n + x * (real (Suc n) * ?q ^ n * (- (2 * x)))
           + 2 * real (Suc n) * ?q ^ n) / real (2 * n + 3)) (at x)"
    by (rule derivative_eq_intros Suc.IH refl | simp)+
  moreover have "(1 * ?q ^ Suc n + x * (real (Suc n) * ?q ^ n * (- (2 * x)))
           + 2 * real (Suc n) * ?q ^ n) / real (2 * n + 3) = ?q ^ Suc n"
  proof -
    have xx: "x * x = 1 - ?q" by (simp add: power2_eq_square)
    have "x * (real (Suc n) * ?q ^ n * (- (2 * x))) = - (2 * real (Suc n) * ?q ^ n) * (x * x)"
      by simp
    also have "\<dots> = - (2 * real (Suc n) * ?q ^ n) * (1 - ?q)" by (simp only: xx)
    finally have t1: "x * (real (Suc n) * ?q ^ n * (- (2 * x)))
        = - (2 * real (Suc n) * ?q ^ n) * (1 - ?q)" .
    have "1 * ?q ^ Suc n + - (2 * real (Suc n) * ?q ^ n) * (1 - ?q) + 2 * real (Suc n) * ?q ^ n
          = real (2 * n + 3) * ?q ^ Suc n"
      by (simp add: algebra_simps)
    then have "1 * ?q ^ Suc n + x * (real (Suc n) * ?q ^ n * (- (2 * x)))
           + 2 * real (Suc n) * ?q ^ n = real (2 * n + 3) * ?q ^ Suc n"
      by (simp only: t1)
    then show ?thesis by simp
  qed
  ultimately show ?case by (simp only: eq)
qed

lemma poly_int_0: "poly_int n 0 = 0"
  by (induction n) simp_all

lemma poly_int_1: "poly_int n 1 = wallis (Suc (2 * n))"
proof (induction n)
  case 0
  show ?case by (simp add: wallis_1)
next
  case (Suc n)
  have "wallis (Suc (2 * Suc n)) = real (Suc (Suc (2 * n))) / real (Suc (Suc (Suc (2 * n)))) * wallis (Suc (2 * n))"
    using wallis_Suc_Suc [of "Suc (2 * n)"] by simp
  then show ?case using Suc by (simp add: algebra_simps)
qed

lemma one_minus_square_le:
  fixes t :: real
  assumes "0 \<le> t" and "t \<le> 1"
  shows "(1 - t ^ 2) ^ n \<le> exp (- (real n) * t ^ 2)"
proof -
  have "t ^ 2 \<le> 1" using assms by (simp add: power_le_one)
  then have q: "0 \<le> 1 - t ^ 2" by simp
  have "1 + - (t ^ 2) \<le> exp (- (t ^ 2))" by (rule exp_ge_add_one_self)
  then have "(1 - t ^ 2) ^ n \<le> exp (- (t ^ 2)) ^ n" using q by (intro power_mono) simp_all
  also have "exp (- (t ^ 2)) ^ n = exp (real n * (- (t ^ 2)))" by (rule exp_of_nat_mult [symmetric])
  finally show ?thesis by simp
qed

lemma gauss_area_lower_wallis:
  "sqrt (2 * real (Suc j)) * wallis (Suc (2 * Suc j)) \<le> gauss_area (sqrt (2 * real (Suc j)))"
proof -
  let ?s = "sqrt (2 * real (Suc j))"
  have s: "0 < ?s" by simp
  have s2: "?s ^ 2 / 2 = real (Suc j)" by simp
  have "poly_int (Suc j) 1 - poly_int (Suc j) 0 \<le> gauss_area (?s * 1) / ?s - gauss_area (?s * 0) / ?s"
  proof (rule deriv_le_imp_diff_le)
    show "(0::real) \<le> 1" by simp
    show "(poly_int (Suc j) has_real_derivative (1 - y ^ 2) ^ Suc j) (at y)" for y
      by (rule poly_int_deriv)
    show "((\<lambda>t. gauss_area (?s * t) / ?s) has_real_derivative exp (- (real (Suc j)) * y ^ 2)) (at y)"
      for y using scaled_area_deriv [OF s, of y] by (simp only: s2)
    show "(1 - y ^ 2) ^ Suc j \<le> exp (- (real (Suc j)) * y ^ 2)" if "0 \<le> y" "y \<le> 1" for y
      using that by (rule one_minus_square_le)
  qed
  then have "wallis (Suc (2 * Suc j)) \<le> gauss_area ?s / ?s"
    by (simp add: poly_int_1 poly_int_0 gauss_area_0 del: poly_int.simps)
  then show ?thesis using s by (simp add: field_simps)
qed

lemma gauss_area_square_lower:
  assumes "sqrt (2 * real (Suc j)) \<le> x"
  shows "pi / 2 * (1 - 1 / real (Suc (Suc j))) \<le> gauss_area x ^ 2"
proof -
  let ?s = "sqrt (2 * real (Suc j))"
  let ?w = "wallis (Suc (2 * Suc j))" and ?v = "wallis (Suc (Suc (2 * Suc j)))"
  have w0: "0 < ?w" by (rule wallis_pos)
  have "?v \<le> ?w" by (rule wallis_decreasing)
  then have ww: "?w * ?v \<le> ?w * ?w" using w0 by (intro mult_left_mono) simp_all
  have prod: "real (Suc (Suc (2 * Suc j))) * ?v * ?w = pi / 2"
    by (rule wallis_product)
  have lo: "?s * ?w \<le> gauss_area ?s" by (rule gauss_area_lower_wallis)
  have "gauss_area ?s \<le> gauss_area x" using assms by (rule gauss_area_mono)
  then have g: "?s * ?w \<le> gauss_area x" using lo by linarith
  have sw: "0 \<le> ?s * ?w" using w0 by simp
  have "pi / 2 * (1 - 1 / real (Suc (Suc j)))
          = (2 * real (Suc j) / real (Suc (Suc (2 * Suc j)))) * (pi / 2)"
    by (simp add: field_simps)
  also have "\<dots> = (2 * real (Suc j) / real (Suc (Suc (2 * Suc j)))) * (real (Suc (Suc (2 * Suc j))) * ?v * ?w)"
    by (simp only: prod)
  also have "\<dots> = 2 * real (Suc j) * (?w * ?v)" by simp
  also have "\<dots> \<le> 2 * real (Suc j) * (?w * ?w)"
    using ww by (rule mult_left_mono) simp
  also have "\<dots> = (?s * ?w) ^ 2"
    by (simp add: power_mult_distrib power2_eq_square)
  also have "\<dots> \<le> gauss_area x ^ 2"
    using sw g by (intro power_mono) simp_all
  finally show ?thesis .
qed

subsection \<open>The limits of the distribution function\<close>

lemma gauss_area_le: "gauss_area x \<le> sqrt (pi / 2)"
proof (cases "0 \<le> x")
  case True
  then have "gauss_area x ^ 2 \<le> pi / 2" by (rule gauss_area_square_le)
  then show ?thesis by (rule real_le_rsqrt)
next
  case False
  then have "gauss_area x \<le> gauss_area 0" by (intro gauss_area_mono) simp
  then have "gauss_area x \<le> 0" by (simp add: gauss_area_0)
  moreover have "0 \<le> sqrt (pi / 2)" by simp
  ultimately show ?thesis by linarith
qed

lemma gauss_area_eventually_gt:
  assumes "a < sqrt (pi / 2)"
  shows "\<exists>N. \<forall>x\<ge>N. a < gauss_area x"
proof (cases "a < 0")
  case True
  have "a < gauss_area x" if "0 \<le> x" for x
    using gauss_area_nonneg_all [OF that] True by linarith
  then show ?thesis by blast
next
  case False
  then have a0: "0 \<le> a" by simp
  have "a ^ 2 < sqrt (pi / 2) ^ 2" using assms a0 by (intro power_strict_mono) simp_all
  then have a2: "a ^ 2 < pi / 2" by simp
  then have "0 < (pi / 2 - a ^ 2) / (pi / 2)" by simp
  then obtain j where j: "inverse (real (Suc j)) < (pi / 2 - a ^ 2) / (pi / 2)"
    using reals_Archimedean by blast
  have "1 / real (Suc (Suc j)) \<le> inverse (real (Suc j))"
    by (simp add: field_simps)
  then have "1 / real (Suc (Suc j)) < (pi / 2 - a ^ 2) / (pi / 2)" using j by linarith
  then have "pi / 2 * (1 / real (Suc (Suc j))) < pi / 2 - a ^ 2"
    by (simp add: field_simps)
  then have lt: "a ^ 2 < pi / 2 * (1 - 1 / real (Suc (Suc j)))"
    by (simp add: algebra_simps)
  have "a < gauss_area x" if "sqrt (2 * real (Suc j)) \<le> x" for x
  proof -
    have "0 \<le> x" using that real_sqrt_ge_zero [of "2 * real (Suc j)"] by linarith
    then have g0: "0 \<le> gauss_area x" by (rule gauss_area_nonneg_all)
    have "a ^ 2 < gauss_area x ^ 2"
      using lt gauss_area_square_lower [OF that] by linarith
    then show ?thesis using g0 by (rule power2_less_imp_less)
  qed
  then show ?thesis by blast
qed

lemma gauss_area_at_top: "(gauss_area \<longlongrightarrow> sqrt (pi / 2)) at_top"
proof (rule order_tendstoI)
  fix a :: real assume "a < sqrt (pi / 2)"
  then show "eventually (\<lambda>x. a < gauss_area x) at_top"
    unfolding eventually_at_top_linorder by (rule gauss_area_eventually_gt)
next
  fix a :: real assume "sqrt (pi / 2) < a"
  then have "gauss_area x < a" for x using gauss_area_le [of x] by linarith
  then show "eventually (\<lambda>x. gauss_area x < a) at_top" by simp
qed

lemma gauss_area_at_bot: "(gauss_area \<longlongrightarrow> - sqrt (pi / 2)) at_bot"
proof -
  have "((\<lambda>x. - gauss_area x) \<longlongrightarrow> - sqrt (pi / 2)) at_top"
    by (rule tendsto_minus) (rule gauss_area_at_top)
  then have "((\<lambda>x. gauss_area (- x)) \<longlongrightarrow> - sqrt (pi / 2)) at_top"
    by (simp add: gauss_area_series)
  then show ?thesis by (simp only: filterlim_at_bot_mirror)
qed

lemma half_sqrt_two_pi: "sqrt (2 * pi) / 2 = sqrt (pi / 2)"
proof -
  have "sqrt (2 * pi) / 2 = sqrt (2 * pi) / sqrt 4" by simp
  also have "\<dots> = sqrt (2 * pi / 4)" by (simp only: real_sqrt_divide)
  finally show ?thesis by simp
qed

lemma scaled_cdf: "sqrt (2 * pi) * norm_cdf x = sqrt (pi / 2) + gauss_area x"
proof -
  have "sqrt (2 * pi) * norm_cdf x = sqrt (2 * pi) / 2 + gauss_area x"
    by (simp add: norm_cdf_def algebra_simps)
  then show ?thesis by (simp only: half_sqrt_two_pi)
qed

lemma scaled_cdf_deriv: "((\<lambda>x. sqrt (2 * pi) * norm_cdf x) has_real_derivative integrand x) (at x)"
proof -
  have "((\<lambda>x. sqrt (pi / 2) + gauss_area x) has_real_derivative integrand x) (at x)"
    by (rule derivative_eq_intros gauss_area_deriv refl | simp)+
  then show ?thesis by (simp only: scaled_cdf)
qed

lemma scaled_cdf_at_bot: "((\<lambda>x. sqrt (2 * pi) * norm_cdf x) \<longlongrightarrow> 0) at_bot"
proof -
  have "((\<lambda>x. sqrt (pi / 2) + gauss_area x) \<longlongrightarrow> sqrt (pi / 2) + - sqrt (pi / 2)) at_bot"
    by (intro tendsto_add tendsto_const gauss_area_at_bot)
  then show ?thesis by (simp add: scaled_cdf)
qed

lemma norm_cdf_bounds: "0 \<le> norm_cdf x" "norm_cdf x \<le> 1"
proof -
  have s: "0 < sqrt (2 * pi)" by simp
  have "- sqrt (pi / 2) \<le> gauss_area x"
    using gauss_area_le [of "- x"] by (simp add: gauss_area_series)
  then have "0 \<le> sqrt (2 * pi) * norm_cdf x" by (simp add: scaled_cdf)
  then show "0 \<le> norm_cdf x" using s by (simp only: zero_le_mult_iff) linarith
  have "sqrt (2 * pi) * norm_cdf x \<le> sqrt (pi / 2) + sqrt (pi / 2)"
    using gauss_area_le [of x] by (simp add: scaled_cdf)
  also have "\<dots> = sqrt (2 * pi) * 1" using half_sqrt_two_pi by simp
  finally show "norm_cdf x \<le> 1" using s by (simp only: mult_le_cancel_left_pos)
qed

subsection \<open>The integral up to a finite limit, and the quadrature\<close>

lemma improper_integral_gauss: "improper_integral integrand u (sqrt (2 * pi) * norm_cdf u)"
  unfolding improper_integral_def
  by (intro exI [of _ "\<lambda>x. sqrt (2 * pi) * norm_cdf x"] conjI allI
      scaled_cdf_deriv scaled_cdf_at_bot refl)

lemma improper_integral_unique:
  assumes "improper_integral f u I" and "improper_integral f u J"
  shows "I = J"
proof -
  obtain F where F: "\<And>x. (F has_real_derivative f x) (at x)" "(F \<longlongrightarrow> 0) at_bot" "F u = I"
    using assms(1) unfolding improper_integral_def by blast
  obtain G where G: "\<And>x. (G has_real_derivative f x) (at x)" "(G \<longlongrightarrow> 0) at_bot" "G u = J"
    using assms(2) unfolding improper_integral_def by blast
  have d: "((\<lambda>x. F x - G x) has_real_derivative 0) (at x)" for x
    using DERIV_diff [OF F(1) [of x] G(1) [of x]] by simp
  have c: "F x - G x = F u - G u" for x
    by (rule DERIV_isconst_all [of "\<lambda>x. F x - G x"]) (simp add: d)
  have e: "(\<lambda>x. F x - G x) = (\<lambda>x. F u - G u)" by (rule ext) (rule c)
  have "((\<lambda>x. F x - G x) \<longlongrightarrow> 0 - 0) at_bot"
    by (intro tendsto_diff F(2) G(2))
  then have "((\<lambda>x. F u - G u) \<longlongrightarrow> 0 - 0) (at_bot :: real filter)" by (simp only: e)
  then have "((\<lambda>x. F u - G u) \<longlongrightarrow> 0) (at_bot :: real filter)" by simp
  moreover have "((\<lambda>x. F u - G u) \<longlongrightarrow> F u - G u) (at_bot :: real filter)" by (rule tendsto_const)
  ultimately have "F u - G u = 0"
    by (intro tendsto_unique [of "at_bot :: real filter" "\<lambda>x. F u - G u"]) simp_all
  then show ?thesis using F(3) G(3) by simp
qed

lemma improper_integral_integrand:
  "improper_integral integrand u I \<longleftrightarrow> I = sqrt (2 * pi) * norm_cdf u"
  using improper_integral_unique [OF _ improper_integral_gauss] improper_integral_gauss by blast

lemma quad_within_integrand:
  "quad_within sp integrand u eps \<longleftrightarrow>
     \<bar>q_integral (quad sp integrand NegInf (Finite u)) - sqrt (2 * pi) * norm_cdf u\<bar> \<le> eps"
  by (simp add: quad_within_def improper_integral_integrand)

lemma quad_within_fraction:
  assumes "quad_within sp integrand u eps"
  shows "\<bar>computed_fraction sp (Finite u) - norm_cdf u\<bar> \<le> eps / 2"
proof -
  let ?q = "q_integral (quad sp integrand NegInf (Finite u))"
  let ?s = "sqrt (2 * pi)"
  have s: "2 \<le> ?s" by (rule sqrt_two_pi_bounds)
  have q: "\<bar>?q - ?s * norm_cdf u\<bar> \<le> eps" using assms by (simp add: quad_within_integrand)
  have "computed_fraction sp (Finite u) - norm_cdf u = (?q - ?s * norm_cdf u) / ?s"
    using s by (simp add: computed_fraction_def field_simps)
  then have "\<bar>computed_fraction sp (Finite u) - norm_cdf u\<bar> = \<bar>?q - ?s * norm_cdf u\<bar> / ?s"
    using s by (simp add: abs_divide)
  also have "\<dots> \<le> eps / ?s" using q s by (intro divide_right_mono) simp_all
  also have "\<dots> \<le> eps / 2"
  proof -
    have "0 \<le> eps" using q by linarith
    then show ?thesis using s by (intro divide_left_mono) simp_all
  qed
  finally show ?thesis .
qed

text \<open>
  Two fractions that differ by less than one unit of the \<open>n\<close>-th decimal are rounded to
  values at most one unit apart.
\<close>

lemma py_round_grid:
  assumes "x \<le> y + d" and "d < 1 / 10 ^ n"
  shows "py_round x n \<le> py_round y n + 1 / 10 ^ n"
proof -
  let ?p = "(10::real) ^ n"
  let ?a = "round_half_even (x * ?p)" and ?b = "round_half_even (y * ?p)"
  have p: "0 < ?p" by simp
  have "x * ?p \<le> (y + d) * ?p" using assms(1) p by (intro mult_right_mono) simp_all
  moreover have "d * ?p < 1" using assms(2) p by (simp add: field_simps)
  ultimately have xy: "x * ?p < y * ?p + 1" by (simp add: algebra_simps)
  have "\<bar>of_int ?a - x * ?p\<bar> \<le> 1 / 2" by (rule round_half_even_close)
  moreover have "\<bar>of_int ?b - y * ?p\<bar> \<le> 1 / 2" by (rule round_half_even_close)
  ultimately have "(of_int ?a :: real) < of_int ?b + 2" using xy by linarith
  then have "?a < ?b + 2" by linarith
  then have "?a \<le> ?b + 1" by simp
  then have "(of_int ?a :: real) \<le> of_int ?b + 1" by linarith
  then have "of_int ?a / ?p \<le> (of_int ?b + 1) / ?p" using p by (intro divide_right_mono) simp_all
  then show ?thesis by (simp add: py_round_def add_divide_distrib)
qed

section \<open>A run in which the quadrature misses the integral\<close>

lemma exact_run_quad_within:
  assumes "0 \<le> eps"
  shows "quad_within (exact_run z) integrand u eps"
  using assms
  by (simp add: quad_within_integrand exact_run_def scipy_returning_def gauss_quad_def)

lemma collapsed_run_find_params:
  "find_params collapsed_run (HackParams_init 2 1 50) = Inr (0, sqrt (2 * ln 2))"
  by (simp add: find_params_cases radicand_def closed_form_location_def closed_form_scale_def)

text \<open>
  The threshold \<open>10\<^sup>5\<^sup>0\<close> is standardised to \<open>50 ln 10 / \<surd>(2 ln 2)\<close>, about 97.8.
\<close>

lemma far_limit_bounds:
  "77 < ln (10 ^ 50) / sqrt (2 * ln 2)" "ln (10 ^ 50) / sqrt (2 * ln 2) < 194"
proof -
  let ?s = "sqrt (2 * ln 2 :: real)"
  have l10: "ln ((10::real) ^ 50) = 50 * ln 10" by (simp only: ln_realpow of_nat_numeral)
  have l8: "ln ((2::real) ^ 3) = 3 * ln 2" by (simp only: ln_realpow of_nat_numeral)
  have l16: "ln ((2::real) ^ 4) = 4 * ln 2" by (simp only: ln_realpow of_nat_numeral)
  have "ln ((2::real) ^ 3) \<le> ln 10" by simp
  then have lo: "2 \<le> ln (10::real)" using ln_2_bounds(1) by (simp only: l8)
  have "ln (10::real) \<le> ln (2 ^ 4)" by simp
  then have hi: "ln (10::real) \<le> 3" using ln_2_bounds(2) by (simp only: l16)
  have "(1::real) ^ 2 \<le> 2 * ln 2" using ln_2_bounds(1) by simp
  then have s1: "1 \<le> ?s" by (rule real_le_rsqrt)
  have "2 * ln (2::real) \<le> (6 / 5) ^ 2" using ln_2_bounds(2) by (simp add: power_divide)
  then have s2: "?s \<le> 6 / 5" by (intro real_le_lsqrt) simp_all
  have s0: "0 < ?s" using s1 by linarith
  have "77 * ?s < 50 * ln 10" using s2 lo by linarith
  then have "77 < 50 * ln 10 / ?s" using s0 by (simp only: pos_less_divide_eq)
  then show "77 < ln (10 ^ 50) / ?s" by (simp only: l10)
  have "50 * ln 10 < 194 * ?s" using s1 hi by linarith
  then have "50 * ln 10 / ?s < 194" using s0 by (simp only: pos_divide_less_eq)
  then show "ln (10 ^ 50) / ?s < 194" by (simp only: l10)
qed

lemma collapsed_run_value:
  assumes "0 < t" and "77 < ln t / sqrt (2 * ln 2)" and "ln t / sqrt (2 * ln 2) < 194"
  shows "count_poverty collapsed_run (HackParams_init 2 1 50) t = Inr 0"
proof -
  have s: "sqrt (2 * ln 2) \<noteq> (0::real)" by simp
  have u: "np_divide (ln t) (sqrt (2 * ln 2)) = Finite (ln t / sqrt (2 * ln 2))"
    using s by (simp add: np_divide_def)
  have f: "computed_fraction collapsed_run (Finite (ln t / sqrt (2 * ln 2))) = 0"
    using assms(2,3) by (simp add: computed_fraction_def collapsed_run_quad)
  have r: "py_round 0 4 = 0" using py_round_of_int [of 0 4] by simp
  show ?thesis
    using assms(1) by (simp add: count_poverty_eq [OF collapsed_run_find_params] u f r)
qed

lemma collapsed_run_far:
  "count_poverty collapsed_run (HackParams_init 2 1 50) (10 ^ 50) = Inr 0"
  by (rule collapsed_run_value) (simp, rule far_limit_bounds, rule far_limit_bounds)

lemma collapsed_run_near:
  "count_poverty collapsed_run (HackParams_init 2 1 50) 1 = Inr 50"
proof -
  have s: "sqrt (2 * ln 2) \<noteq> (0::real)" by simp
  have f: "computed_fraction collapsed_run (np_divide 0 (sqrt (2 * ln 2))) = 1 / 2"
    using s by (simp add: np_divide_def computed_fraction_def collapsed_run_quad gauss_quad_def
        norm_cdf_0)
  show ?thesis
    by (simp add: count_poverty_eq [OF collapsed_run_find_params] f py_round_half)
qed

lemma far_integral:
  assumes "1 \<le> u"
  shows "21 / 10 \<le> sqrt (2 * pi) * norm_cdf u"
proof -
  have "norm_cdf 1 = 1 - norm_cdf (- 1)" by (simp add: norm_cdf_def gauss_area_odd)
  then have "841344 / 1000000 \<le> norm_cdf 1" using phi_at_1(2) by linarith
  moreover have "norm_cdf 1 \<le> norm_cdf u" using assms by (rule norm_cdf_mono)
  ultimately have h: "841344 / 1000000 \<le> norm_cdf u" by linarith
  have "2506627 / 1000000 * (841344 / 1000000) \<le> sqrt (2 * pi) * norm_cdf u"
    using sqrt_two_pi_fine(1) h by (intro mult_mono) simp_all
  then show ?thesis by simp
qed

section \<open>The claims\<close>

subsection \<open>C1: round trip\<close>




subsection \<open>C2: the closed form\<close>

text \<open>
  Claim C2 (closed-form fit). When both inputs are positive and the term under the square
  root is not negative, \<^verbatim>\<open>find_params\<close> returns exactly
  \<open>scale = z + \<surd>(z\<^sup>2 + 2 ln (average_income / poverty_line))\<close> and
  \<open>location = ln average_income - 0.5 scale\<^sup>2\<close>, where \<open>z\<close> is the value that
  \<^verbatim>\<open>find_upper_limit\<close> returned. The library enters the result through \<open>z\<close> only:
  nothing is searched for after \<open>z\<close> is known.
\<close>

theorem find_params_closed_form:
  assumes "0 < average_income hp" and "0 < poverty_line hp"
    and "find_upper_limit sp hp = Inr z"
    and "0 \<le> z ^ 2 + 2 * ln (average_income hp / poverty_line hp)"
  shows "find_params sp hp =
     (let scale = z + sqrt (z ^ 2 + 2 * ln (average_income hp / poverty_line hp))
      in Inr (ln (average_income hp) - 0.5 * scale ^ 2, scale))"
proof -
  have z: "z = solved_z sp hp"
    using assms(3) by (simp add: find_upper_limit_def solved_z_def)
  have "0 \<le> radicand sp hp" using assms(4) by (simp add: radicand_def z)
  then have "find_params sp hp = Inr (closed_form_location sp hp, closed_form_scale sp hp)"
    using assms(1,2) by (rule find_params_ok [rotated 2])
  then show ?thesis
    by (simp add: closed_form_location_def closed_form_scale_def radicand_def z Let_def)
qed

theorem find_params_closed_form_witness:
  "find_upper_limit (exact_run 0) (HackParams_init 2 1 50) = Inr 0
   \<and> 0 \<le> (0::real) ^ 2 + 2 * ln (2 / 1)
   \<and> find_params (exact_run 0) (HackParams_init 2 1 50) = Inr (0, sqrt (2 * ln 2))"
proof -
  let ?hp = "HackParams_init 2 1 50"
  have u: "find_upper_limit (exact_run 0) ?hp = Inr 0"
    by (simp add: find_upper_limit_def exact_run_def scipy_returning_def)
  have r: "0 \<le> (0::real) ^ 2 + 2 * ln (average_income ?hp / poverty_line ?hp)"
    by simp
  have "find_params (exact_run 0) ?hp = Inr (0, sqrt (2 * ln 2))"
    using find_params_closed_form [of ?hp "exact_run 0" 0, OF _ _ u r]
    by (simp add: Let_def)
  then show ?thesis using u by simp
qed

subsection \<open>C3: the reference example\<close>

text \<open>
  Claim C3. For an average income of 44937, a poverty line of 13545 and a poverty rate
  of 9.8 per cent, \<^verbatim>\<open>find_params\<close> returns a location within 0.001 of 10.4506 and a
  scale within 0.001 of 0.7245, and \<^verbatim>\<open>count_poverty\<close> at 14545 returns a value within
  0.05 of 11.61. The library enters through two error bounds: the residual of the value
  \<^verbatim>\<open>fsolve\<close> returned is at most 0.00002, and the estimate that \<^verbatim>\<open>quad\<close> returned for
  the one upper limit \<^verbatim>\<open>count_poverty\<close> passes to it, \<open>u = (ln 14545 - location) / scale\<close>,
  lies within 0.0002 of the integral of the integrand from \<open>-\<infinity>\<close> to \<open>u\<close>.
\<close>

theorem reference_scenario:
  assumes "hp = HackParams_init 44937 13545 (98 / 10)"
    and "\<bar>equation (solved_z sp hp) (poverty hp)\<bar> \<le> 1 / 50000"
    and "quad_within sp integrand
           ((ln 14545 - closed_form_location sp hp) / closed_form_scale sp hp) (1 / 5000)"
  shows "\<exists>mu sigma v. find_params sp hp = Inr (mu, sigma)
     \<and> \<bar>mu - 104506 / 10000\<bar> \<le> 1 / 1000 \<and> \<bar>sigma - 7245 / 10000\<bar> \<le> 1 / 1000
     \<and> count_poverty sp hp 14545 = Inr v \<and> \<bar>v - 1161 / 100\<bar> \<le> 5 / 100"
proof -
  let ?z = "solved_z sp hp"
  let ?s = "closed_form_scale sp hp" and ?m = "closed_form_location sp hp"
  let ?u = "(ln 14545 - ?m) / ?s"
  let ?f = "computed_fraction sp (Finite ?u)"
  have a: "average_income hp = 44937" and l: "poverty_line hp = 13545"
    and p: "poverty hp = 98 / 1000"
    using assms(1) by simp_all
  have "\<bar>norm_cdf ?z - 98 / 1000\<bar> \<le> 1 / 50000"
    using assms(2) by (simp add: equation_def p)
  then have z: "- (12933 / 10000) \<le> ?z" "?z \<le> - (12927 / 10000)"
    by (rule z_bracket)+
  have rad: "radicand sp hp = ?z ^ 2 + 2 * ln (44937 / 13545)"
    by (simp add: radicand_def a l)
  have r: "0 \<le> radicand sp hp"
    unfolding rad using z by (rule fit_bracket(1))
  have s: "724014 / 1000000 \<le> ?s" "?s \<le> 725001 / 1000000"
    unfolding closed_form_scale_def rad using z by (rule fit_bracket(2,3))+
  have loc: "?m = ln 44937 - 0.5 * ?s ^ 2" by (simp add: closed_form_location_def a)
  have m: "10450200 / 1000000 \<le> ?m" "?m \<le> 10450932 / 1000000"
    unfolding loc using s by (rule location_bracket)+
  have u: "- (11961 / 10000) \<le> ?u" "?u \<le> - (11933 / 10000)"
    using s m by (rule standardised_bracket)+
  have fp: "find_params sp hp = Inr (?m, ?s)"
    using r by (intro find_params_ok) (simp_all add: a l)
  have "?s \<noteq> 0" using s(1) by linarith
  then have c: "count_poverty sp hp 14545 = Inr (py_round ?f 4 * 100)"
    by (simp add: count_poverty_eq [OF fp] np_divide_def)
  have "norm_cdf (- (11961 / 10000)) \<le> norm_cdf ?u" using u(1) by (rule norm_cdf_mono)
  then have p1: "11582 / 100000 \<le> norm_cdf ?u" using phi_at_11961 by linarith
  have "norm_cdf ?u \<le> norm_cdf (- (11933 / 10000))" using u(2) by (rule norm_cdf_mono)
  then have p2: "norm_cdf ?u \<le> 11638 / 100000" using phi_at_11933 by linarith
  have q: "\<bar>?f - norm_cdf ?u\<bar> \<le> 1 / 10000"
    using quad_within_fraction [OF assms(3)] by simp
  have rd: "\<bar>py_round ?f 4 - ?f\<bar> \<le> 1 / 20000"
    using py_round_close [of ?f 4] by simp
  have "\<bar>py_round ?f 4 * 100 - 1161 / 100\<bar> \<le> 5 / 100"
    using p1 p2 q rd by linarith
  moreover have "\<bar>?m - 104506 / 10000\<bar> \<le> 1 / 1000" using m by linarith
  moreover have "\<bar>?s - 7245 / 10000\<bar> \<le> 1 / 1000" using s by linarith
  ultimately show ?thesis using fp c by blast
qed

theorem reference_scenario_witness:
  "\<bar>equation (solved_z (exact_run (- (1293 / 1000))) (HackParams_init 44937 13545 (98 / 10)))
       (poverty (HackParams_init 44937 13545 (98 / 10)))\<bar> \<le> 1 / 50000
   \<and> quad_within (exact_run (- (1293 / 1000))) integrand
        ((ln 14545 - closed_form_location (exact_run (- (1293 / 1000)))
                       (HackParams_init 44937 13545 (98 / 10)))
           / closed_form_scale (exact_run (- (1293 / 1000)))
               (HackParams_init 44937 13545 (98 / 10)))
        (1 / 5000)
   \<and> (\<exists>mu sigma v.
         find_params (exact_run (- (1293 / 1000))) (HackParams_init 44937 13545 (98 / 10))
           = Inr (mu, sigma)
       \<and> \<bar>mu - 104506 / 10000\<bar> \<le> 1 / 1000 \<and> \<bar>sigma - 7245 / 10000\<bar> \<le> 1 / 1000
       \<and> count_poverty (exact_run (- (1293 / 1000))) (HackParams_init 44937 13545 (98 / 10)) 14545
           = Inr v
       \<and> \<bar>v - 1161 / 100\<bar> \<le> 5 / 100)"
proof -
  let ?sp = "exact_run (- (1293 / 1000))" and ?hp = "HackParams_init 44937 13545 (98 / 10)"
  have "\<bar>norm_cdf (- (1293 / 1000)) - 98 / 1000\<bar> \<le> 1 / 50000"
    using phi_at_1293 by linarith
  then have e: "\<bar>equation (solved_z ?sp ?hp) (poverty ?hp)\<bar> \<le> 1 / 50000"
    by (simp add: equation_def)
  have q: "quad_within ?sp integrand
      ((ln 14545 - closed_form_location ?sp ?hp) / closed_form_scale ?sp ?hp) (1 / 5000)"
    by (rule exact_run_quad_within) simp
  show ?thesis
    using reference_scenario [OF refl e q] e q by blast
qed

subsection \<open>C4: the percentage is not checked\<close>

text \<open>
  Claim C4 as stated fails: with a poverty rate of 150 per cent the constructor
  stores \<open>1.5\<close>, and \<^verbatim>\<open>find_params\<close> returns a pair computed from the iterate at which
  \<^verbatim>\<open>fsolve\<close> stopped (here 8; the next theorem shows that any other iterate gives a
  pair as well). No exception is raised.
\<close>

theorem domain_rejection_counterexample:
  "HackParams_init 44937 13545 150
     = \<lparr>average_income = 44937, poverty_line = 13545, poverty = 3 / 2\<rparr>
   \<and> find_params stalled_run (HackParams_init 44937 13545 150)
     = Inr (ln 44937 - 0.5 * (8 + sqrt (8 ^ 2 + 2 * ln (44937 / 13545))) ^ 2,
            8 + sqrt (8 ^ 2 + 2 * ln (44937 / 13545)))"
proof -
  have "0 \<le> ln (44937 / 13545 :: real)" by simp
  then have "0 \<le> radicand stalled_run (HackParams_init 44937 13545 150)"
    by (simp add: radicand_def)
  then have "find_params stalled_run (HackParams_init 44937 13545 150)
        = Inr (closed_form_location stalled_run (HackParams_init 44937 13545 150),
               closed_form_scale stalled_run (HackParams_init 44937 13545 150))"
    by (intro find_params_ok) simp_all
  then show ?thesis
    by (simp add: closed_form_location_def closed_form_scale_def radicand_def
        HackParams_init_def)
qed

text \<open>
  Claim C4, amended. The constructor stores the percentage divided by 100 whatever its
  value, and \<^verbatim>\<open>find_params\<close> does not look at it either: whenever the poverty line is
  positive and not above the average income, \<^verbatim>\<open>find_params\<close> returns the closed-form
  pair, for every percentage and every value \<^verbatim>\<open>fsolve\<close> may return.
\<close>

theorem percentage_never_checked:
  assumes "0 < line" and "line \<le> avg"
  shows "poverty (HackParams_init avg line pct) = pct / 100
     \<and> find_params sp (HackParams_init avg line pct)
       = Inr (closed_form_location sp (HackParams_init avg line pct),
              closed_form_scale sp (HackParams_init avg line pct))"
proof -
  let ?hp = "HackParams_init avg line pct"
  have "1 \<le> avg / line" using assms by simp
  then have "0 \<le> ln (avg / line)" by simp
  then have "0 \<le> radicand sp ?hp" by (simp add: radicand_def)
  then have "find_params sp ?hp = Inr (closed_form_location sp ?hp, closed_form_scale sp ?hp)"
    using assms by (intro find_params_ok) simp_all
  then show ?thesis by simp
qed

theorem percentage_never_checked_witness:
  "poverty (HackParams_init 2 1 (- 5)) = - 5 / 100
   \<and> find_params stalled_run (HackParams_init 2 1 (- 5))
      = Inr (ln 2 - 0.5 * (8 + sqrt (64 + 2 * ln 2)) ^ 2, 8 + sqrt (64 + 2 * ln 2))"
  using percentage_never_checked [of 1 2 "- 5" stalled_run]
  by (simp add: closed_form_location_def closed_form_scale_def radicand_def)

subsection \<open>C5: no convergence error\<close>

text \<open>
  Claim C5 as stated fails: in a run where \<^verbatim>\<open>fsolve\<close> did not converge (flag 5, for a
  target probability of \<open>1.5\<close>), \<^verbatim>\<open>find_upper_limit\<close> returns the last iterate.
\<close>

theorem convergence_error_counterexample:
  "fs_ier (fsolve stalled_run equation 0 (poverty (HackParams_init 44937 13545 150))) = 5
   \<and> find_upper_limit stalled_run (HackParams_init 44937 13545 150) = Inr 8"
  by (simp add: find_upper_limit_def stalled_run_def scipy_returning_def)

text \<open>
  Claim C5, amended. \<^verbatim>\<open>find_upper_limit\<close> never fails: it returns the value that
  \<^verbatim>\<open>fsolve\<close> hands back, converged or not; the convergence flag is not read.
\<close>

theorem find_upper_limit_returns_iterate:
  "find_upper_limit sp hp = Inr (fs_x (fsolve sp equation 0 (poverty hp)))
   \<and> (\<forall>e. find_upper_limit sp hp \<noteq> Inl e)"
  by (simp add: find_upper_limit_def)

subsection \<open>C6: the sign of the scale is not checked\<close>

text \<open>
  Claim C6 as stated fails: with the average income equal to the poverty line and a
  poverty rate of 50 per cent, \<^verbatim>\<open>fsolve\<close> returns 0 and \<^verbatim>\<open>find_params\<close> returns the
  scale 0.
\<close>

theorem positive_scale_counterexample:
  "equation 0 (poverty (HackParams_init 100 100 50)) = 0
   \<and> find_params (exact_run 0) (HackParams_init 100 100 50) = Inr (ln 100, 0)"
  by (simp add: find_params_cases radicand_def closed_form_location_def closed_form_scale_def
      equation_start)

text \<open>
  Claim C6, amended. For positive inputs and a non-negative term under the square root,
  \<^verbatim>\<open>find_params\<close> returns the closed-form pair without looking at the sign of the
  scale; the scale is positive exactly when \<open>z\<close> is positive or the average income
  exceeds the poverty line.
\<close>

theorem scale_sign_unchecked:
  assumes "0 < average_income hp" and "0 < poverty_line hp" and "0 \<le> radicand sp hp"
  shows "find_params sp hp = Inr (closed_form_location sp hp, closed_form_scale sp hp)
     \<and> (0 < closed_form_scale sp hp
          \<longleftrightarrow> 0 < solved_z sp hp \<or> poverty_line hp < average_income hp)"
  using find_params_ok [OF assms] scale_pos_iff [OF assms] by simp

theorem scale_sign_unchecked_witness:
  "0 \<le> radicand (exact_run 0) (HackParams_init 7 7 50)
   \<and> find_params (exact_run 0) (HackParams_init 7 7 50) = Inr (ln 7, 0)
   \<and> \<not> (0 < closed_form_scale (exact_run 0) (HackParams_init 7 7 50))"
proof -
  let ?sp = "exact_run 0" and ?hp = "HackParams_init 7 7 50"
  have r: "0 \<le> radicand ?sp ?hp" by (simp add: radicand_def)
  show ?thesis
    using scale_sign_unchecked [of ?hp ?sp, OF _ _ r] r
    by (simp add: closed_form_location_def closed_form_scale_def radicand_def)
qed

subsection \<open>C7: failures of the evaluator\<close>

text \<open>
  Claim C7 as stated fails in its second half: a quadrature that fails is not reported.
  For an average income of 2, a poverty line of 1 and a poverty rate of 50 per cent,
  \<^verbatim>\<open>find_params\<close> returns the location 0 and the scale \<open>\<surd>(2 ln 2)\<close>, and
  \<^verbatim>\<open>count_poverty\<close> at the threshold \<open>10\<^sup>5\<^sup>0\<close> calls \<^verbatim>\<open>quad\<close> with the upper limit
  \<open>ln 10\<^sup>5\<^sup>0 / \<surd>(2 ln 2)\<close>, between 77 and 194. The integral up to that limit is at
  least 2.1, more than 83 per cent of the integral over the whole line; \<^verbatim>\<open>quad\<close>
  returns the estimate 0 and reports success, and \<^verbatim>\<open>count_poverty\<close> returns 0 per
  cent. No exception is raised.
\<close>

theorem integration_failure_counterexample:
  "find_params collapsed_run (HackParams_init 2 1 50) = Inr (0, sqrt (2 * ln 2))
   \<and> 77 < ln (10 ^ 50) / sqrt (2 * ln 2) \<and> ln (10 ^ 50) / sqrt (2 * ln 2) < (194::real)
   \<and> (\<exists>I. improper_integral integrand (ln (10 ^ 50) / sqrt (2 * ln 2)) I \<and> 21 / 10 \<le> I)
   \<and> quad collapsed_run integrand NegInf (Finite (ln (10 ^ 50) / sqrt (2 * ln 2)))
       = \<lparr>q_integral = 0, q_abserr = 0, q_ier = 0\<rparr>
   \<and> count_poverty collapsed_run (HackParams_init 2 1 50) (10 ^ 50) = Inr 0"
proof -
  let ?u = "ln (10 ^ 50) / sqrt (2 * ln 2) :: real"
  have "1 \<le> ?u" using far_limit_bounds(1) by linarith
  then have "21 / 10 \<le> sqrt (2 * pi) * norm_cdf ?u" by (rule far_integral)
  then have i: "\<exists>I. improper_integral integrand ?u I \<and> 21 / 10 \<le> I"
    using improper_integral_gauss [of ?u] by blast
  have "quad collapsed_run integrand NegInf (Finite ?u) =
      (if 77 < ?u \<and> ?u < 194 then \<lparr>q_integral = 0, q_abserr = 0, q_ier = 0\<rparr>
       else gauss_quad (Finite ?u))"
    by (rule collapsed_run_quad)
  then have q: "quad collapsed_run integrand NegInf (Finite ?u)
      = \<lparr>q_integral = 0, q_abserr = 0, q_ier = 0\<rparr>"
    using far_limit_bounds by (simp only: simp_thms if_True)
  show ?thesis using collapsed_run_find_params far_limit_bounds i q collapsed_run_far by blast
qed

text \<open>
  Claim C7, amended. For a threshold that is not positive \<^verbatim>\<open>count_poverty\<close> fails, as
  the claim says: with the exception of \<^verbatim>\<open>find_params\<close> if that fails, and otherwise
  with the \<^verbatim>\<open>ValueError\<close> (math domain error) of \<^verbatim>\<open>math.log\<close>, which is raised before
  the quadrature is called. For a positive threshold \<^verbatim>\<open>count_poverty\<close> fails only if
  \<^verbatim>\<open>find_params\<close> does; otherwise it returns the estimate of \<^verbatim>\<open>quad\<close>, normalised,
  rounded and multiplied by 100, whatever \<^verbatim>\<open>quad\<close> returns: neither its error
  estimate nor its status is read.
\<close>

theorem count_poverty_failures:
  "count_poverty sp hp new_line =
     (case find_params sp hp of
        Inl e \<Rightarrow> Inl e
      | Inr (mu, sigma) \<Rightarrow>
          if new_line \<le> 0 then Inl ValueError
          else Inr (py_round (computed_fraction sp (np_divide (ln new_line - mu) sigma)) 4 * 100))
   \<and> (new_line \<le> 0 \<longrightarrow> (\<exists>e. count_poverty sp hp new_line = Inl e))"
proof (cases "find_params sp hp")
  case (Inl e)
  then show ?thesis by (simp add: count_poverty_def bind_err_def)
next
  case (Inr r)
  obtain mu sigma where r: "r = (mu, sigma)" by (cases r)
  have fp: "find_params sp hp = Inr (mu, sigma)" using Inr r by simp
  show ?thesis by (simp add: count_poverty_eq [OF fp] fp)
qed

theorem count_poverty_failures_witness:
  "(0::real) \<le> 0
   \<and> count_poverty (exact_run 0) (HackParams_init 2 1 50) 0 = Inl ValueError
   \<and> (\<exists>e. count_poverty (exact_run 0) (HackParams_init 2 1 50) 0 = Inl e)"
  using count_poverty_failures [of "exact_run 0" "HackParams_init 2 1 50" 0]
    exact_run_find_params
  by simp

subsection \<open>C8: monotonicity\<close>

text \<open>
  Claim C8 as stated, for every \<^verbatim>\<open>HackParams\<close> instance, fails: for an average income of 2,
  a poverty line of 3 and the poverty rate \<open>100 \<Phi>(-1)\<close> (between 15.865 and 15.866 per
  cent), \<^verbatim>\<open>fsolve\<close> returns \<open>-1\<close>,
  \<^verbatim>\<open>find_params\<close> returns a negative scale, and \<^verbatim>\<open>count_poverty\<close> falls from the
  threshold 3 to the threshold 20, quadrature without error.
\<close>

theorem monotonicity_counterexample:
  "15865 / 1000 \<le> 100 * norm_cdf (- 1) \<and> 100 * norm_cdf (- 1) \<le> 15866 / 1000
   \<and> equation (- 1) (poverty (HackParams_init 2 3 (100 * norm_cdf (- 1)))) = 0
   \<and> (case (count_poverty (exact_run (- 1)) (HackParams_init 2 3 (100 * norm_cdf (- 1))) 3,
             count_poverty (exact_run (- 1)) (HackParams_init 2 3 (100 * norm_cdf (- 1))) 20) of
         (Inr va, Inr vb) \<Rightarrow> vb < va
       | _ \<Rightarrow> False)"
proof -
  obtain u where u: "u \<le> - 2"
    and b: "count_poverty (exact_run (- 1)) reversed_params 20 = Inr (py_round (norm_cdf u) 4 * 100)"
    using reversed_beyond_line by blast
  have "\<bar>py_round (norm_cdf u) 4 - norm_cdf u\<bar> \<le> 1 / 20000"
    using py_round_close [of "norm_cdf u" 4] by simp
  moreover have "\<bar>py_round (norm_cdf (- 1)) 4 - norm_cdf (- 1)\<bar> \<le> 1 / 20000"
    using py_round_close [of "norm_cdf (- 1)" 4] by simp
  ultimately have lt: "py_round (norm_cdf u) 4 * 100 < py_round (norm_cdf (- 1)) 4 * 100"
    using norm_cdf_gap [OF u] by linarith
  have "15865 / 1000 \<le> 100 * norm_cdf (- 1)" "100 * norm_cdf (- 1) \<le> 15866 / 1000"
    using phi_at_1 by linarith+
  then show ?thesis
    using lt b [unfolded reversed_params_def] reversed_at_line [unfolded reversed_params_def]
    by (simp add: equation_def)
qed

text \<open>
  With a positive scale the order fails as well, where the quadrature misses the
  integral: for an average income of 2, a poverty line of 1 and a poverty rate of 50 per
  cent the scale is \<open>\<surd>(2 ln 2)\<close>, and \<^verbatim>\<open>count_poverty\<close> falls from 50 per cent at the
  threshold 1 to 0 per cent at the threshold \<open>10\<^sup>5\<^sup>0\<close>, for which \<^verbatim>\<open>quad\<close> returns the
  estimate 0.
\<close>

theorem positive_scale_drop:
  "find_params collapsed_run (HackParams_init 2 1 50) = Inr (0, sqrt (2 * ln 2))
   \<and> 0 < sqrt (2 * ln 2 :: real)
   \<and> count_poverty collapsed_run (HackParams_init 2 1 50) 1 = Inr 50
   \<and> count_poverty collapsed_run (HackParams_init 2 1 50) (10 ^ 50) = Inr 0"
proof -
  have "0 < sqrt (2 * ln 2 :: real)" by simp
  then show ?thesis
    using collapsed_run_find_params collapsed_run_near collapsed_run_far by blast
qed

text \<open>
  Claim C8, amended. Let \<^verbatim>\<open>find_params\<close> return \<open>(mu, sigma)\<close>, let \<open>a \<le> b\<close> be positive
  thresholds, and let the estimates that \<^verbatim>\<open>quad\<close> returned for the two upper limits
  \<open>(ln a - mu) / sigma\<close> and \<open>(ln b - mu) / sigma\<close> lie within 0.00005 of the integrals of
  the integrand from \<open>-\<infinity>\<close> to these limits. Then \<^verbatim>\<open>count_poverty\<close> returns a value
  at both thresholds. For a positive scale the value at \<open>a\<close> exceeds the value at \<open>b\<close> by
  at most 0.01, one unit of the last digit reported: the integrals are ordered, because
  the integrand is positive, and the estimates are then ordered up to their errors. For
  a negative scale the value at \<open>b\<close> exceeds the value at \<open>a\<close> by at most 0.01.
\<close>

theorem count_poverty_monotone:
  assumes "find_params sp hp = Inr (mu, sigma)" and "0 < a" and "a \<le> b"
    and "quad_within sp integrand ((ln a - mu) / sigma) (1 / 20000)"
    and "quad_within sp integrand ((ln b - mu) / sigma) (1 / 20000)"
  shows "\<exists>va vb. count_poverty sp hp a = Inr va \<and> count_poverty sp hp b = Inr vb
     \<and> (0 < sigma \<longrightarrow> va \<le> vb + 1 / 100) \<and> (sigma < 0 \<longrightarrow> vb \<le> va + 1 / 100)"
proof -
  let ?u = "\<lambda>x. (ln x - mu) / sigma"
  let ?g = "\<lambda>x. computed_fraction sp (Finite (?u x))"
  let ?f = "\<lambda>x. computed_fraction sp (np_divide (ln x - mu) sigma)"
  have b: "0 < b" using assms(2,3) by simp
  have ca: "count_poverty sp hp a = Inr (py_round (?f a) 4 * 100)"
    using assms(2) by (simp add: count_poverty_eq [OF assms(1)])
  have cb: "count_poverty sp hp b = Inr (py_round (?f b) 4 * 100)"
    using b by (simp add: count_poverty_eq [OF assms(1)])
  have l: "ln a \<le> ln b" using assms(2,3) by simp
  have fa: "\<bar>?g a - norm_cdf (?u a)\<bar> \<le> 1 / 40000"
    using quad_within_fraction [OF assms(4)] by simp
  have fb: "\<bar>?g b - norm_cdf (?u b)\<bar> \<le> 1 / 40000"
    using quad_within_fraction [OF assms(5)] by simp
  have n: "?f x = ?g x" if "sigma \<noteq> 0" for x
    using that by (simp add: np_divide_def)
  have up: "py_round (?f a) 4 * 100 \<le> py_round (?f b) 4 * 100 + 1 / 100" if s: "0 < sigma"
  proof -
    have "?u a \<le> ?u b" using l s by (simp add: divide_right_mono)
    then have "norm_cdf (?u a) \<le> norm_cdf (?u b)" by (rule norm_cdf_mono)
    then have "?g a \<le> ?g b + 1 / 20000" using fa fb by linarith
    then have "py_round (?g a) 4 \<le> py_round (?g b) 4 + 1 / 10 ^ 4"
      by (rule py_round_grid) simp
    then have "py_round (?f a) 4 \<le> py_round (?f b) 4 + 1 / 10 ^ 4"
      using s by (simp add: n)
    then show ?thesis by simp
  qed
  have down: "py_round (?f b) 4 * 100 \<le> py_round (?f a) 4 * 100 + 1 / 100" if s: "sigma < 0"
  proof -
    have "?u b \<le> ?u a" using l s by (simp add: divide_right_mono_neg)
    then have "norm_cdf (?u b) \<le> norm_cdf (?u a)" by (rule norm_cdf_mono)
    then have "?g b \<le> ?g a + 1 / 20000" using fa fb by linarith
    then have "py_round (?g b) 4 \<le> py_round (?g a) 4 + 1 / 10 ^ 4"
      by (rule py_round_grid) simp
    then have "py_round (?f b) 4 \<le> py_round (?f a) 4 + 1 / 10 ^ 4"
      using s by (simp add: n)
    then show ?thesis by simp
  qed
  show ?thesis using ca cb up down by blast
qed

theorem count_poverty_monotone_witness:
  "find_params (exact_run 0) (HackParams_init 2 1 50) = Inr (0, sqrt (2 * ln 2))
   \<and> 0 < sqrt (2 * ln 2 :: real)
   \<and> quad_within (exact_run 0) integrand ((ln 1 - 0) / sqrt (2 * ln 2)) (1 / 20000)
   \<and> quad_within (exact_run 0) integrand ((ln 2 - 0) / sqrt (2 * ln 2)) (1 / 20000)
   \<and> (\<exists>va vb. count_poverty (exact_run 0) (HackParams_init 2 1 50) 1 = Inr va
        \<and> count_poverty (exact_run 0) (HackParams_init 2 1 50) 2 = Inr vb
        \<and> va \<le> vb + 1 / 100)
   \<and> closed_form_scale (exact_run (- 1)) reversed_params < 0
   \<and> (\<exists>va vb. count_poverty (exact_run (- 1)) reversed_params 3 = Inr va
        \<and> count_poverty (exact_run (- 1)) reversed_params 20 = Inr vb
        \<and> vb \<le> va + 1 / 100)"
proof -
  let ?s = "sqrt (2 * ln 2 :: real)"
  have s: "0 < ?s" by simp
  have qa: "quad_within (exact_run 0) integrand ((ln 1 - 0) / ?s) (1 / 20000)"
    by (rule exact_run_quad_within) simp
  have qb: "quad_within (exact_run 0) integrand ((ln 2 - 0) / ?s) (1 / 20000)"
    by (rule exact_run_quad_within) simp
  have "\<exists>va vb. count_poverty (exact_run 0) (HackParams_init 2 1 50) 1 = Inr va
      \<and> count_poverty (exact_run 0) (HackParams_init 2 1 50) 2 = Inr vb
      \<and> (0 < ?s \<longrightarrow> va \<le> vb + 1 / 100) \<and> (?s < 0 \<longrightarrow> vb \<le> va + 1 / 100)"
    by (rule count_poverty_monotone [OF exact_run_find_params _ _ qa qb]) simp_all
  then have c: "\<exists>va vb. count_poverty (exact_run 0) (HackParams_init 2 1 50) 1 = Inr va
      \<and> count_poverty (exact_run 0) (HackParams_init 2 1 50) 2 = Inr vb
      \<and> va \<le> vb + 1 / 100"
    using s by blast
  let ?sp = "exact_run (- 1)"
  let ?m = "closed_form_location ?sp reversed_params"
  let ?t = "closed_form_scale ?sp reversed_params"
  have t: "?t < 0" by (rule reversed_scale)
  have ra: "quad_within ?sp integrand ((ln 3 - ?m) / ?t) (1 / 20000)"
    by (rule exact_run_quad_within) simp
  have rb: "quad_within ?sp integrand ((ln 20 - ?m) / ?t) (1 / 20000)"
    by (rule exact_run_quad_within) simp
  have "\<exists>va vb. count_poverty ?sp reversed_params 3 = Inr va
      \<and> count_poverty ?sp reversed_params 20 = Inr vb
      \<and> (0 < ?t \<longrightarrow> va \<le> vb + 1 / 100) \<and> (?t < 0 \<longrightarrow> vb \<le> va + 1 / 100)"
    by (rule count_poverty_monotone [OF reversed_find_params _ _ ra rb]) simp_all
  then have d: "\<exists>va vb. count_poverty ?sp reversed_params 3 = Inr va
      \<and> count_poverty ?sp reversed_params 20 = Inr vb \<and> vb \<le> va + 1 / 100"
    using t by blast
  show ?thesis using exact_run_find_params s qa qb c t d by blast
qed

subsection \<open>C9: rounding and the percentage convention\<close>



subsection \<open>C10: the recomputed location\<close>

text \<open>
  Claim C10. When \<^verbatim>\<open>find_params\<close> succeeds with \<open>(mu, sigma)\<close>, the logarithm that
  \<^verbatim>\<open>count_poverty\<close> takes again succeeds, the quantity \<open>ln_x0\<close> it recomputes equals
  \<open>mu\<close>, and \<^verbatim>\<open>count_poverty\<close> is the evaluator that standardises with \<open>mu\<close>:
  \<open>u = (ln new_line - mu) / sigma\<close>.
\<close>

theorem ln_x0_is_mu:
  assumes "find_params sp hp = Inr (mu, sigma)"
  shows "math_log (average_income hp) = Inr (ln (average_income hp))
     \<and> ln (average_income hp) - 0.5 * sigma ^ 2 = mu
     \<and> count_poverty sp hp new_line = count_poverty_with_mu sp hp new_line"
proof -
  have a: "0 < average_income hp" and m: "mu = closed_form_location sp hp"
    and s: "sigma = closed_form_scale sp hp"
    using find_params_Inr [OF assms] by auto
  have "ln (average_income hp) - 0.5 * sigma ^ 2 = mu"
    by (simp add: m s closed_form_location_def)
  then show ?thesis
    using a count_poverty_refines [of sp hp new_line] by (simp add: math_log_def)
qed

theorem ln_x0_is_mu_witness:
  "find_params (exact_run 0) (HackParams_init 2 1 50) = Inr (0, sqrt (2 * ln 2))
   \<and> ln 2 - 0.5 * sqrt (2 * ln 2) ^ 2 = (0::real)
   \<and> count_poverty (exact_run 0) (HackParams_init 2 1 50) 3
       = count_poverty_with_mu (exact_run 0) (HackParams_init 2 1 50) 3"
  using ln_x0_is_mu [OF exact_run_find_params, of 3] exact_run_find_params by simp

end
